theory Spec2Isabelle
  imports Complex_Main
begin

section \<open>Python results and the base agent\<close>

text \<open>
  The three layers of the repository (\<^verbatim>\<open>LRL/replayBuffer.py\<close>, \<^verbatim>\<open>LRL/targetDQN.py\<close>,
  \<^verbatim>\<open>LRL/A2C.py\<close>) are classes stacked on a base \<^verbatim>\<open>Agent\<close>. Each method is embedded as a
  function from the object's state to its new state; an exception is the \<open>Inl\<close> branch
  of the result.
\<close>

datatype error = IndexError | ValueError | ZeroDivisionError | RuntimeError

type_synonym 'a result = "error + 'a"

definition and_then :: "'a result \<Rightarrow> ('a \<Rightarrow> 'b result) \<Rightarrow> 'b result" where
  "and_then r f = (case r of Inl e \<Rightarrow> Inl e | Inr x \<Rightarrow> f x)"

text \<open>Python's \<^verbatim>\<open>a % b\<close> on ints: floor modulo, \<^verbatim>\<open>ZeroDivisionError\<close> when \<^verbatim>\<open>b == 0\<close>.\<close>

definition py_mod :: "int \<Rightarrow> int \<Rightarrow> int result" where
  "py_mod a b = (if b = 0 then Inl ZeroDivisionError else Inr (a mod b))"

text \<open>Python's \<^verbatim>\<open>xs[i] = v\<close> on a list: a negative index counts from the end, an index
  out of range raises \<^verbatim>\<open>IndexError\<close>.\<close>

definition list_setitem :: "'a list \<Rightarrow> int \<Rightarrow> 'a \<Rightarrow> 'a list result" where
  "list_setitem xs i v =
     (if 0 \<le> i \<and> i < int (length xs) then Inr (xs[nat i := v])
      else if i < 0 \<and> - int (length xs) \<le> i then Inr (xs[nat (int (length xs) + i) := v])
      else Inl IndexError)"

text \<open>
  The fields of the base \<^verbatim>\<open>Agent\<close> that the layers read: the frame counter, the number
  of parallel environments (\<^verbatim>\<open>self.env.num_envs\<close>) and the logger, a mapping from a
  channel name to the list of values appended to it.
\<close>

record agent =
  frames_done :: int
  num_envs :: nat
  logger :: "string \<Rightarrow> real list"

text \<open>
  Modelled from the spec: the base class \<^verbatim>\<open>Agent\<close> (\<^verbatim>\<open>LRL/agent.py\<close>) is not among the
  sources. Its contract in the spec is that \<^verbatim>\<open>see\<close> is side-effecting and that
  \<^verbatim>\<open>frames_done\<close> is monotonic and advances by \<^verbatim>\<open>num_envs\<close> per step. It is the end of
  every chain of \<^verbatim>\<open>super().see\<close> calls, so it takes no parent.
\<close>

definition Agent_see :: "'z agent_scheme \<Rightarrow> 'x \<Rightarrow> 'z agent_scheme result" where
  "Agent_see s x = Inr (s\<lparr>frames_done := frames_done s + int (num_envs s)\<rparr>)"

text \<open>
  The two orders in which an override of \<^verbatim>\<open>see\<close> can combine its own bookkeeping with
  the call of the parent's \<^verbatim>\<open>see\<close>. An exception in the first part skips the second.
\<close>

definition own_then_delegate ::
  "('s \<Rightarrow> 'x \<Rightarrow> 's result) \<Rightarrow> ('s \<Rightarrow> 'x \<Rightarrow> 's result) \<Rightarrow> 's \<Rightarrow> 'x \<Rightarrow> 's result" where
  "own_then_delegate own super_see s x = and_then (own s x) (\<lambda>s1. super_see s1 x)"

definition delegate_then_own ::
  "('s \<Rightarrow> 'x \<Rightarrow> 's result) \<Rightarrow> ('s \<Rightarrow> 'x \<Rightarrow> 's result) \<Rightarrow> 's \<Rightarrow> 'x \<Rightarrow> 's result" where
  "delegate_then_own super_see own s x = and_then (super_see s x) (\<lambda>s1. own s1 x)"

section \<open>The replay buffer layer (\<^verbatim>\<open>LRL/replayBuffer.py\<close>)\<close>

text \<open>
  A stored transition is the tuple \<^verbatim>\<open>(state, action, reward, next_state, done)\<close> in which
  the two state arrays carry a leading axis of length one. An array with a leading axis is
  the list of its slices along that axis, so \<^verbatim>\<open>np.expand_dims(x, 0)\<close> is the one-element
  list and \<^verbatim>\<open>np.concatenate\<close> of a tuple of such arrays is list concatenation.
\<close>

type_synonym ('o, 'c, 'r, 'd) transition = "'o list \<times> 'c \<times> 'r \<times> 'o list \<times> 'd"

definition expand_dims :: "'o \<Rightarrow> 'o list" where
  "expand_dims x = [x]"

record ('o, 'c, 'r, 'd) replay_agent = agent +
  replay_buffer_capacity :: int
  replay_buffer_nsteps :: int
  buffer :: "('o, 'c, 'r, 'd) transition list"
  pos :: int

text \<open>\<^verbatim>\<open>__init__\<close>: the base constructor runs first (its result is \<open>base\<close>), then the
  layer's own fields are set.\<close>

definition ReplayBufferAgent_init :: "int \<Rightarrow> agent \<Rightarrow> ('o, 'c, 'r, 'd) replay_agent" where
  "ReplayBufferAgent_init capacity base =
     \<lparr>frames_done = frames_done base, num_envs = num_envs base, logger = logger base,
      replay_buffer_capacity = capacity, replay_buffer_nsteps = 1, buffer = [], pos = 0\<rparr>"

text \<open>\<^verbatim>\<open>__len__\<close>\<close>

definition len :: "('o, 'c, 'r, 'd, 'z) replay_agent_scheme \<Rightarrow> int" where
  "len s = int (length (buffer s))"

text \<open>\<^verbatim>\<open>memorize\<close> (lines 21-31). The append or the overwrite comes first, the cursor
  moves after it, so an \<^verbatim>\<open>IndexError\<close> of the overwrite wins over a
  \<^verbatim>\<open>ZeroDivisionError\<close> of the modulo.\<close>

definition memorize ::
  "('o, 'c, 'r, 'd, 'z) replay_agent_scheme \<Rightarrow> 'o \<Rightarrow> 'c \<Rightarrow> 'r \<Rightarrow> 'o \<Rightarrow> 'd \<Rightarrow> 'e
     \<Rightarrow> ('o, 'c, 'r, 'd, 'z) replay_agent_scheme result" where
  "memorize s state action reward next_state done died =
     (let state' = expand_dims state;
          next_state' = expand_dims next_state
      in and_then
           (if len s < replay_buffer_capacity s
            then Inr (buffer s @ [(state', action, reward, next_state', done)])
            else list_setitem (buffer s) (pos s) (state', action, reward, next_state', done))
           (\<lambda>b. and_then (py_mod (pos s + 1) (replay_buffer_capacity s))
              (\<lambda>p. Inr (s\<lparr>buffer := b, pos := p\<rparr>))))"

text \<open>\<^verbatim>\<open>see\<close> (lines 33-35): \<^verbatim>\<open>memorize\<close>, then the parent's \<^verbatim>\<open>see\<close> with the same six
  arguments. The parent class is the parameter \<open>super_see\<close>.\<close>

fun ReplayBufferAgent_memorize ::
  "('o, 'c, 'r, 'd, 'z) replay_agent_scheme \<Rightarrow> 'o \<times> 'c \<times> 'r \<times> 'o \<times> 'd \<times> 'e
     \<Rightarrow> ('o, 'c, 'r, 'd, 'z) replay_agent_scheme result" where
  "ReplayBufferAgent_memorize s (state, action, reward, next_state, done, died) =
     memorize s state action reward next_state done died"

definition ReplayBufferAgent_see ::
  "(('o, 'c, 'r, 'd, 'z) replay_agent_scheme \<Rightarrow> 'o \<times> 'c \<times> 'r \<times> 'o \<times> 'd \<times> 'e
      \<Rightarrow> ('o, 'c, 'r, 'd, 'z) replay_agent_scheme result)
     \<Rightarrow> ('o, 'c, 'r, 'd, 'z) replay_agent_scheme \<Rightarrow> 'o \<times> 'c \<times> 'r \<times> 'o \<times> 'd \<times> 'e
     \<Rightarrow> ('o, 'c, 'r, 'd, 'z) replay_agent_scheme result" where
  "ReplayBufferAgent_see super_see s x =
     and_then (ReplayBufferAgent_memorize s x) (\<lambda>s1. super_see s1 x)"

text \<open>A sequence of calls of \<^verbatim>\<open>memorize\<close>, stopped by the first exception.\<close>

fun memorize_seq ::
  "('o, 'c, 'r, 'd, 'z) replay_agent_scheme \<Rightarrow> ('o \<times> 'c \<times> 'r \<times> 'o \<times> 'd \<times> 'e) list
     \<Rightarrow> ('o, 'c, 'r, 'd, 'z) replay_agent_scheme result" where
  "memorize_seq s [] = Inr s"
| "memorize_seq s (x # xs) = and_then (ReplayBufferAgent_memorize s x) (\<lambda>s1. memorize_seq s1 xs)"

text \<open>The tuple that a call of \<^verbatim>\<open>memorize\<close> with the arguments \<open>x\<close> is said to store.\<close>

fun stored :: "'o \<times> 'c \<times> 'r \<times> 'o \<times> 'd \<times> 'e \<Rightarrow> ('o, 'c, 'r, 'd) transition" where
  "stored (state, action, reward, next_state, done, died) =
     ([state], action, reward, [next_state], done)"







text \<open>
  The invariant of the ring buffer after \<open>n\<close> calls of \<^verbatim>\<open>memorize\<close> on a fresh agent of
  capacity \<open>c\<close>, where \<open>ys\<close> lists the tuples stored so far: each of the last \<open>c\<close> of them
  sits in the slot of its number modulo \<open>c\<close>.
\<close>

definition ring_inv ::
  "nat \<Rightarrow> ('o, 'c, 'r, 'd) transition list \<Rightarrow> nat \<Rightarrow> ('o, 'c, 'r, 'd, 'z) replay_agent_scheme \<Rightarrow> bool" where
  "ring_inv c ys n s \<longleftrightarrow>
     replay_buffer_capacity s = int c \<and> length (buffer s) = min n c \<and> pos s = int (n mod c) \<and>
     (\<forall>j<n. n - j \<le> c \<longrightarrow> buffer s ! (j mod c) = ys ! j)"

section \<open>The target network layer (\<^verbatim>\<open>LRL/targetDQN.py\<close>)\<close>

text \<open>
  The network parameters are of an arbitrary type \<open>'p\<close>. \<open>q_net\<close> is the online network,
  a field of the Q-network layer beneath this one (\<^verbatim>\<open>LRL/DQN.py\<close>, not among the sources);
  \<open>target_update\<close> is \<^verbatim>\<open>self.config.target_update\<close>. The field \<open>syncs\<close> is a ghost
  counter: it counts the calls of \<^verbatim>\<open>unfreeze\<close> and nothing reads it.
\<close>

record 'p target_agent = agent +
  target_update :: int
  q_net :: 'p
  target_net :: 'p
  syncs :: nat

text \<open>\<^verbatim>\<open>unfreeze\<close> (lines 24-26): the online parameters are copied into the target network.\<close>

definition unfreeze :: "('p, 'z) target_agent_scheme \<Rightarrow> ('p, 'z) target_agent_scheme" where
  "unfreeze s = s\<lparr>target_net := q_net s, syncs := Suc (syncs s)\<rparr>"

text \<open>Lines 31-32 of \<^verbatim>\<open>see\<close>: the layer's own bookkeeping, on the state the parent's
  \<^verbatim>\<open>see\<close> has left.\<close>

definition sync_if_due :: "('p, 'z) target_agent_scheme \<Rightarrow> 'x \<Rightarrow> ('p, 'z) target_agent_scheme result" where
  "sync_if_due s x =
     and_then (py_mod (frames_done s) (target_update s))
       (\<lambda>m. if m < int (num_envs s) then Inr (unfreeze s) else Inr s)"

text \<open>\<^verbatim>\<open>see\<close> (lines 28-32): the parent's \<^verbatim>\<open>see\<close> first, the check after it.\<close>

definition TargetQAgent_see ::
  "(('p, 'z) target_agent_scheme \<Rightarrow> 'x \<Rightarrow> ('p, 'z) target_agent_scheme result)
     \<Rightarrow> ('p, 'z) target_agent_scheme \<Rightarrow> 'x \<Rightarrow> ('p, 'z) target_agent_scheme result" where
  "TargetQAgent_see super_see s x = and_then (super_see s x) (\<lambda>s1. sync_if_due s1 x)"

text \<open>A run: one call of \<^verbatim>\<open>see\<close> per input, stopped by the first exception.\<close>

fun TargetQAgent_run ::
  "(('p, 'z) target_agent_scheme \<Rightarrow> 'x \<Rightarrow> ('p, 'z) target_agent_scheme result)
     \<Rightarrow> ('p, 'z) target_agent_scheme \<Rightarrow> 'x list \<Rightarrow> ('p, 'z) target_agent_scheme result" where
  "TargetQAgent_run super_see s [] = Inr s"
| "TargetQAgent_run super_see s (x # xs) =
     and_then (TargetQAgent_see super_see s x) (\<lambda>s1. TargetQAgent_run super_see s1 xs)"

text \<open>
  What the layer needs of the class beneath it, from the spec's contract of the base agent:
  a call of \<^verbatim>\<open>see\<close> that returns has advanced \<open>frames_done\<close> by \<open>num_envs\<close> and has left
  the environment, the configuration and this layer's own fields as they were. The online
  network \<open>q_net\<close> may have changed in any way.
\<close>

definition parent_contract ::
  "(('p, 'z) target_agent_scheme \<Rightarrow> 'x \<Rightarrow> ('p, 'z) target_agent_scheme result) \<Rightarrow> bool" where
  "parent_contract super_see \<longleftrightarrow>
     (\<forall>s x s1. super_see s x = Inr s1 \<longrightarrow>
        frames_done s1 = frames_done s + int (num_envs s) \<and> num_envs s1 = num_envs s \<and>
        target_update s1 = target_update s \<and> target_net s1 = target_net s \<and>
        syncs s1 = syncs s)"

section \<open>The on-policy rollout layer (\<^verbatim>\<open>LRL/A2C.py\<close>)\<close>

subsection \<open>Tensors\<close>

text \<open>
  An element of a torch tensor carries a value and, through autograd, its derivative with
  respect to the parameters of the network. It is modelled as a dual number: the value and
  the derivative along one parameter, which is arbitrary. Sums, differences and products
  follow the rules of differentiation, \<^verbatim>\<open>detach()\<close> keeps the value and drops the
  derivative, \<^verbatim>\<open>item()\<close> reads the value. The values are real numbers: the rounding of
  \<^verbatim>\<open>float32\<close> and its non-finite values are not modelled here. The returns over
  \<^verbatim>\<open>float32\<close> values, with overflow, the infinities and NaN, are \<open>compute_returns_f32\<close>
  below, which is what the masking of the bootstrap value by a done flag is stated on.
\<close>

datatype dual = Dual (val: real) (der: real)

instantiation dual :: comm_ring_1
begin

definition zero_dual_def: "(0::dual) = Dual 0 0"

definition one_dual_def: "(1::dual) = Dual 1 0"

definition plus_dual_def: "x + y = Dual (val x + val y) (der x + der y)"

definition uminus_dual_def: "- x = Dual (- val x) (- der x)"

definition minus_dual_def: "x - y = Dual (val x - val y) (der x - der y)"

definition times_dual_def: "x * y = Dual (val x * val y) (val x * der y + der x * val y)"

instance
  by standard
    (simp_all add: zero_dual_def one_dual_def plus_dual_def uminus_dual_def minus_dual_def
      times_dual_def algebra_simps)

end

text \<open>A Python float as an operand of a tensor operation.\<close>

definition scalar :: "real \<Rightarrow> dual" where
  "scalar r = Dual r 0"

definition detach :: "dual \<Rightarrow> dual" where
  "detach x = Dual (val x) 0"

definition item :: "dual \<Rightarrow> real" where
  "item x = val x"

text \<open>
  A tensor of shape \<open>(T, N, 1)\<close> is the list of its \<open>T\<close> time slots, each the list of its
  \<open>N\<close> entries, one per environment; a tensor of shape \<open>(B)\<close> is a list. \<^verbatim>\<open>mean()\<close> is taken
  over all entries; of an empty tensor torch returns \<^verbatim>\<open>nan\<close>, which the model does not
  have, so results about a mean are stated for non-empty tensors.
\<close>

definition tensor_mean :: "dual list \<Rightarrow> dual" where
  "tensor_mean xs = scalar (1 / real (length xs)) * sum_list xs"

text \<open>\<^verbatim>\<open>x.view(rows, cols, 1)\<close> of a tensor of shape \<open>(B)\<close> or \<open>(B, 1)\<close>: row-major, and a
  \<^verbatim>\<open>RuntimeError\<close> when \<open>B\<close> is not \<open>rows * cols\<close>.\<close>

definition view :: "nat \<Rightarrow> nat \<Rightarrow> 'a list \<Rightarrow> 'a list list result" where
  "view rows cols xs =
     (if length xs = rows * cols
      then Inr (map (\<lambda>t. take cols (drop (t * cols) xs)) [0..<rows])
      else Inl RuntimeError)"

text \<open>\<^verbatim>\<open>tensor[i].copy_(src)\<close>: \<^verbatim>\<open>IndexError\<close> when slot \<open>i\<close> does not exist; a source
  of one entry is broadcast over the slot, any other mismatch of the sizes is a
  \<^verbatim>\<open>RuntimeError\<close>.\<close>

definition copy_row :: "'a list list \<Rightarrow> nat \<Rightarrow> 'a list \<Rightarrow> 'a list list result" where
  "copy_row tensor i src =
     (if length tensor \<le> i then Inl IndexError
      else if length src = length (tensor ! i) then Inr (tensor[i := src])
      else if length src = 1 then Inr (tensor[i := replicate (length (tensor ! i)) (hd src)])
      else Inl RuntimeError)"

subsection \<open>The agent\<close>

text \<open>
  The network head and the optimizer are collaborators outside the sources. A network maps
  a batch of observations to an action distribution and a value per observation; the
  distribution gives the log-probability of a batch of actions and the entropy per
  observation. \<open>optimizer\<close> is what \<^verbatim>\<open>zero_grad\<close>, \<^verbatim>\<open>backward\<close>, the optional clipping of
  the gradient norm and \<^verbatim>\<open>step\<close> make of the network, given the loss.
\<close>

record distribution =
  log_prob :: "int list \<Rightarrow> dual list"
  entropy :: "dual list"

record 'o network =
  forward :: "'o list \<Rightarrow> distribution \<times> dual list"
  magnitude :: real

text \<open>
  \<open>noisy\<close> is the test \<^verbatim>\<open>self.config.get("linear_layer", nn.Linear) is NoisyLinear\<close>. The
  field \<open>updates\<close> is a ghost counter: it counts the calls of \<^verbatim>\<open>update\<close> and nothing reads
  it.
\<close>

record 'o a2c_agent = agent +
  gamma :: real
  critic_loss_weight :: real
  entropy_loss_weight :: real
  rollout :: nat
  grad_norm_max :: "real option"
  magnitude_logging_fraction :: int
  noisy :: bool
  policy :: "'o network"
  optimizer :: "real option \<Rightarrow> dual \<Rightarrow> 'o network \<Rightarrow> 'o network"
  observations :: "'o list list"
  rewards :: "dual list list"
  actions :: "int list list"
  dones :: "dual list list"
  returns :: "dual list list"
  step :: nat
  updates :: nat

text \<open>The shapes that \<^verbatim>\<open>__init__\<close> (lines 39-44) gives the rollout tensors, which no
  method changes, and \<open>step\<close> within the rollout.\<close>

definition shape :: "nat \<Rightarrow> nat \<Rightarrow> 'a list list \<Rightarrow> bool" where
  "shape rows cols tensor \<longleftrightarrow> length tensor = rows \<and> list_all (\<lambda>row. length row = cols) tensor"

definition wf_a2c :: "('o, 'z) a2c_agent_scheme \<Rightarrow> bool" where
  "wf_a2c s \<longleftrightarrow>
     shape (rollout s + 1) (num_envs s) (observations s) \<and>
     shape (rollout s) (num_envs s) (rewards s) \<and>
     shape (rollout s + 1) (num_envs s) (actions s) \<and>
     shape (rollout s + 1) (num_envs s) (dones s) \<and>
     shape (rollout s + 1) (num_envs s) (returns s) \<and>
     step s < rollout s"

text \<open>\<^verbatim>\<open>compute_returns\<close> (lines 87-94). The loop runs \<open>step\<close> from
  \<^verbatim>\<open>self.rewards.size(0) - 1\<close> down to 0; \<open>compute_returns_loop k\<close> is the part of it that
  is left when \<open>step\<close> is about to become \<open>k - 1\<close>. The docstring gives \<open>values\<close> the shape
  \<open>(num_steps + 1, num_processes, 1)\<close>; with it and the shapes of the constructor every index
  is in range and every operation is entry by entry, which is what the model computes.\<close>

definition returns_slot :: "real \<Rightarrow> dual list \<Rightarrow> dual list \<Rightarrow> dual list \<Rightarrow> dual list" where
  "returns_slot g next_returns next_dones slot_rewards =
     map (\<lambda>(ret, d, r). ret * scalar g * (1 - d) + r) (zip next_returns (zip next_dones slot_rewards))"

fun compute_returns_loop :: "nat \<Rightarrow> ('o, 'z) a2c_agent_scheme \<Rightarrow> ('o, 'z) a2c_agent_scheme" where
  "compute_returns_loop 0 s = s"
| "compute_returns_loop (Suc k) s =
     compute_returns_loop k
       (s\<lparr>returns := (returns s)
            [k := returns_slot (gamma s) (returns s ! (k + 1)) (dones s ! (k + 1)) (rewards s ! k)]\<rparr>)"

definition compute_returns ::
  "('o, 'z) a2c_agent_scheme \<Rightarrow> dual list list \<Rightarrow> ('o, 'z) a2c_agent_scheme" where
  "compute_returns s vals =
     compute_returns_loop (length (rewards s))
       (s\<lparr>returns := (returns s)[length (returns s) - 1 := last vals]\<rparr>)"

text \<open>Lines 100-116 of \<^verbatim>\<open>update\<close>: the forward pass, the returns and the losses. The result
  is the state with the returns filled in, and \<open>(actor_loss, critic_loss, dist_entropy, loss)\<close>.
  \<open>num_steps\<close> and \<open>num_processes\<close> are the first two sizes of \<^verbatim>\<open>self.rewards\<close>, set by the
  constructor to \<open>rollout\<close> and \<open>num_envs\<close>. The entropy is sliced as the source slices it: on
  the flat batch, before any \<^verbatim>\<open>view\<close>.\<close>

definition tensor_sub :: "dual list list \<Rightarrow> dual list list \<Rightarrow> dual list list" where
  "tensor_sub a b = map2 (map2 (\<lambda>x y. x - y)) a b"

definition tensor_mul :: "dual list list \<Rightarrow> dual list list \<Rightarrow> dual list list" where
  "tensor_mul a b = map2 (map2 (\<lambda>x y. x * y)) a b"

definition losses ::
  "('o, 'z) a2c_agent_scheme \<Rightarrow> (('o, 'z) a2c_agent_scheme \<times> dual \<times> dual \<times> dual \<times> dual) result" where
  "losses s =
     (let num_steps = length (rewards s);
          num_processes = num_envs s;
          (dist, vals) = forward (policy s) (concat (observations s));
          action_log_probs = log_prob dist (concat (actions s));
          dist_entropy = tensor_mean (butlast (entropy dist))
      in and_then (view (num_steps + 1) num_processes vals)
           (\<lambda>vals. and_then (view (num_steps + 1) num_processes action_log_probs)
              (\<lambda>action_log_probs.
                 let action_log_probs = butlast action_log_probs;
                     s1 = compute_returns s vals;
                     advantages = tensor_sub (map (map detach) (butlast (returns s1))) (butlast vals);
                     critic_loss = tensor_mean (concat (map (map (\<lambda>a. a ^ 2)) advantages));
                     actor_loss =
                       - tensor_mean (concat (tensor_mul (map (map detach) advantages) action_log_probs));
                     loss = actor_loss + scalar (critic_loss_weight s) * critic_loss
                              - scalar (entropy_loss_weight s) * dist_entropy
                 in Inr (s1, actor_loss, critic_loss, dist_entropy, loss))))"

definition log_append :: "string \<Rightarrow> real \<Rightarrow> (string \<Rightarrow> real list) \<Rightarrow> (string \<Rightarrow> real list)" where
  "log_append channel v lg = lg(channel := lg channel @ [v])"

text \<open>\<^verbatim>\<open>update\<close> (lines 96-126).\<close>

definition update :: "('o, 'z) a2c_agent_scheme \<Rightarrow> ('o, 'z) a2c_agent_scheme result" where
  "update s =
     and_then (losses s)
       (\<lambda>(s1, actor_loss, critic_loss, dist_entropy, loss).
          Inr (s1\<lparr>policy := optimizer s1 (grad_norm_max s1) loss (policy s1),
                  logger := log_append ''entropy_loss'' (item dist_entropy)
                              (log_append ''critic_loss'' (item critic_loss)
                                 (log_append ''actor_loss'' (item actor_loss) (logger s1))),
                  updates := Suc (updates s1)\<rparr>))"

text \<open>Lines 73-85 of \<^verbatim>\<open>see\<close>: the layer's own bookkeeping, on the state the parent's
  \<^verbatim>\<open>see\<close> has left. \<open>reward\<close> is an array of floats and \<open>done\<close> an array of booleans, cast
  to 1.0 and 0.0.\<close>

type_synonym 'o a2c_input = "'o list \<times> int list \<times> real list \<times> 'o list \<times> bool list"

fun rollout_bookkeeping ::
  "('o, 'z) a2c_agent_scheme \<Rightarrow> 'o a2c_input \<Rightarrow> ('o, 'z) a2c_agent_scheme result" where
  "rollout_bookkeeping s (state, action, reward, next_state, done) =
     and_then (copy_row (observations s) (step s) state) (\<lambda>obs.
     and_then (copy_row obs (step s + 1) next_state) (\<lambda>obs.
     and_then (copy_row (actions s) (step s) action) (\<lambda>acts.
     and_then (copy_row (rewards s) (step s) (map scalar reward)) (\<lambda>rews.
     and_then (copy_row (dones s) (step s + 1) (map (\<lambda>b. scalar (if b then 1 else 0)) done)) (\<lambda>dns.
     and_then (py_mod (int (step s) + 1) (int (rollout s))) (\<lambda>step'.
     and_then
       (let s1 = s\<lparr>observations := obs, rewards := rews, actions := acts, dones := dns,
                   step := nat step'\<rparr>
        in if step s1 = 0 then update s1 else Inr s1) (\<lambda>s2.
     and_then (py_mod (frames_done s2) (magnitude_logging_fraction s2)) (\<lambda>m.
       if m < int (num_envs s2) \<and> noisy s2
       then Inr (s2\<lparr>logger := log_append ''magnitude'' (magnitude (policy s2)) (logger s2)\<rparr>)
       else Inr s2))))))))"

text \<open>\<^verbatim>\<open>see\<close> (lines 70-85): the parent's \<^verbatim>\<open>see\<close> first, the bookkeeping after it.\<close>

definition A2C_see ::
  "(('o, 'z) a2c_agent_scheme \<Rightarrow> 'o a2c_input \<Rightarrow> ('o, 'z) a2c_agent_scheme result)
     \<Rightarrow> ('o, 'z) a2c_agent_scheme \<Rightarrow> 'o a2c_input \<Rightarrow> ('o, 'z) a2c_agent_scheme result" where
  "A2C_see super_see s x = and_then (super_see s x) (\<lambda>s1. rollout_bookkeeping s1 x)"

text \<open>A run: one call of \<^verbatim>\<open>see\<close> per input, stopped by the first exception.\<close>

fun A2C_run ::
  "(('o, 'z) a2c_agent_scheme \<Rightarrow> 'o a2c_input \<Rightarrow> ('o, 'z) a2c_agent_scheme result)
     \<Rightarrow> ('o, 'z) a2c_agent_scheme \<Rightarrow> 'o a2c_input list \<Rightarrow> ('o, 'z) a2c_agent_scheme result" where
  "A2C_run super_see s [] = Inr s"
| "A2C_run super_see s (x # xs) =
     and_then (A2C_see super_see s x) (\<lambda>s1. A2C_run super_see s1 xs)"

subsection \<open>The returns over \<^verbatim>\<open>float32\<close>\<close>

text \<open>
  The entries of \<^verbatim>\<open>torch.Tensor\<close> are \<^verbatim>\<open>float32\<close> numbers: finite values, the two infinities
  and NaN. An operation on finite values whose exact result rounds to an infinity, that
  is, whose magnitude reaches \<open>2^128 - 2^103\<close>, gives that infinity; an infinity times zero
  and the sum of the two infinities are NaN, and NaN is absorbing. The rounding of a
  result that stays finite and the sign of zero are not modelled: a finite result is the
  exact one. \<open>f32_max\<close> is the largest finite \<^verbatim>\<open>float32\<close>.
\<close>

datatype f32 = Finite real | PosInf | NegInf | NaN

definition f32_max :: real where
  "f32_max = 2 ^ 128 - 2 ^ 104"

definition overflow :: "real \<Rightarrow> f32" where
  "overflow x =
     (if 2 ^ 128 - 2 ^ 103 \<le> x then PosInf
      else if x \<le> - (2 ^ 128 - 2 ^ 103) then NegInf
      else Finite x)"

fun f32_neg :: "f32 \<Rightarrow> f32" where
  "f32_neg (Finite x) = Finite (- x)"
| "f32_neg PosInf = NegInf"
| "f32_neg NegInf = PosInf"
| "f32_neg NaN = NaN"

fun f32_add :: "f32 \<Rightarrow> f32 \<Rightarrow> f32" where
  "f32_add NaN y = NaN"
| "f32_add x NaN = NaN"
| "f32_add (Finite x) (Finite y) = overflow (x + y)"
| "f32_add PosInf NegInf = NaN"
| "f32_add NegInf PosInf = NaN"
| "f32_add (Finite x) y = y"
| "f32_add x y = x"

fun f32_mul :: "f32 \<Rightarrow> f32 \<Rightarrow> f32" where
  "f32_mul NaN y = NaN"
| "f32_mul x NaN = NaN"
| "f32_mul (Finite x) (Finite y) = overflow (x * y)"
| "f32_mul (Finite x) y = (if x = 0 then NaN else if 0 < x then y else f32_neg y)"
| "f32_mul x (Finite y) = (if y = 0 then NaN else if 0 < y then x else f32_neg x)"
| "f32_mul PosInf y = y"
| "f32_mul NegInf y = f32_neg y"

instantiation f32 :: "{zero, one, plus, uminus, minus, times}"
begin

definition zero_f32_def: "(0::f32) = Finite 0"

definition one_f32_def: "(1::f32) = Finite 1"

definition plus_f32_def: "x + y = f32_add x y"

definition uminus_f32_def: "- x = f32_neg x"

definition minus_f32_def: "x - y = f32_add x (f32_neg y)"

definition times_f32_def: "x * y = f32_mul x y"

instance ..

end

text \<open>\<^verbatim>\<open>torch.isfinite\<close> on one entry, and the values that a tensor can hold.\<close>

fun isfinite :: "f32 \<Rightarrow> bool" where
  "isfinite (Finite x) = True"
| "isfinite x = False"

fun is_f32 :: "f32 \<Rightarrow> bool" where
  "is_f32 (Finite x) = (\<bar>x\<bar> \<le> f32_max)"
| "is_f32 x = True"

text \<open>
  \<^verbatim>\<open>compute_returns\<close> (lines 92-94) on \<^verbatim>\<open>float32\<close> tensors: the discount, the tensors
  \<^verbatim>\<open>self.rewards\<close>, \<^verbatim>\<open>self.dones\<close> and \<^verbatim>\<open>self.returns\<close>, and \<open>values\<close>; the result is
  \<^verbatim>\<open>self.returns\<close> after the call. The product is taken from the left, as Python takes
  it: \<^verbatim>\<open>(returns[step + 1] * gamma) * (1 - dones[step + 1])\<close>, then the reward is added.
\<close>

definition returns_slot_f32 :: "f32 \<Rightarrow> f32 list \<Rightarrow> f32 list \<Rightarrow> f32 list \<Rightarrow> f32 list" where
  "returns_slot_f32 g next_returns next_dones slot_rewards =
     map (\<lambda>(ret, d, r). ret * g * (1 - d) + r) (zip next_returns (zip next_dones slot_rewards))"

fun compute_returns_loop_f32 ::
  "nat \<Rightarrow> f32 \<Rightarrow> f32 list list \<Rightarrow> f32 list list \<Rightarrow> f32 list list \<Rightarrow> f32 list list" where
  "compute_returns_loop_f32 0 g rews dns rets = rets"
| "compute_returns_loop_f32 (Suc k) g rews dns rets =
     compute_returns_loop_f32 k g rews dns
       (rets[k := returns_slot_f32 g (rets ! (k + 1)) (dns ! (k + 1)) (rews ! k)])"

definition compute_returns_f32 ::
  "f32 \<Rightarrow> f32 list list \<Rightarrow> f32 list list \<Rightarrow> f32 list list \<Rightarrow> f32 list list \<Rightarrow> f32 list list" where
  "compute_returns_f32 g rews dns rets vals =
     compute_returns_loop_f32 (length rews) g rews dns (rets[length rets - 1 := last vals])"

text \<open>\<^verbatim>\<open>__init__\<close> (lines 27-44), given what the configuration holds: the base constructor
  runs first (its result is \<open>base\<close>), the rollout tensors are zero, \<open>obs0\<close> being the zero
  observation of one environment, and \<open>step\<close> is 0.\<close>

definition A2C_init ::
  "agent \<Rightarrow> real \<Rightarrow> real \<Rightarrow> real \<Rightarrow> nat \<Rightarrow> real option \<Rightarrow> int \<Rightarrow> bool \<Rightarrow> 'o network
     \<Rightarrow> (real option \<Rightarrow> dual \<Rightarrow> 'o network \<Rightarrow> 'o network) \<Rightarrow> 'o \<Rightarrow> 'o a2c_agent" where
  "A2C_init base g cw ew r gmax mlf nz net opt obs0 =
     \<lparr>frames_done = frames_done base, num_envs = num_envs base, logger = logger base,
      gamma = g, critic_loss_weight = cw, entropy_loss_weight = ew, rollout = r,
      grad_norm_max = gmax, magnitude_logging_fraction = mlf, noisy = nz,
      policy = net, optimizer = opt,
      observations = replicate (r + 1) (replicate (num_envs base) obs0),
      rewards = replicate r (replicate (num_envs base) 0),
      actions = replicate (r + 1) (replicate (num_envs base) 0),
      dones = replicate (r + 1) (replicate (num_envs base) 0),
      returns = replicate (r + 1) (replicate (num_envs base) 0),
      step = 0, updates = 0\<rparr>"

text \<open>
  What the layer needs of the network: for a batch of \<open>b\<close> observations and \<open>b\<close> actions it
  returns \<open>b\<close> values and \<open>b\<close> log-probabilities.
\<close>

definition net_ok :: "nat \<Rightarrow> 'o network \<Rightarrow> bool" where
  "net_ok b net \<longleftrightarrow>
     (\<forall>obs acts. length obs = b \<and> length acts = b \<longrightarrow>
        length (snd (forward net obs)) = b \<and> length (log_prob (fst (forward net obs)) acts) = b)"

text \<open>The arguments of a call of \<^verbatim>\<open>see\<close> over \<open>n\<close> environments: one observation, action,
  reward, next observation and done flag per environment.\<close>

fun input_ok :: "nat \<Rightarrow> 'o a2c_input \<Rightarrow> bool" where
  "input_ok n (state, action, reward, next_state, done) \<longleftrightarrow>
     length state = n \<and> length action = n \<and> length reward = n \<and> length next_state = n \<and>
     length done = n"

text \<open>The tensor of shape \<open>(rows, cols, 1)\<close> whose entry at slot \<open>t\<close> and environment \<open>e\<close>
  is \<open>g t e\<close>: the form in which the results about the losses read a tensor.\<close>

definition tabulate2 :: "nat \<Rightarrow> nat \<Rightarrow> (nat \<Rightarrow> nat \<Rightarrow> 'a) \<Rightarrow> 'a list list" where
  "tabulate2 rows cols g = map (\<lambda>t. map (g t) [0..<cols]) [0..<rows]"

section \<open>States used in the examples\<close>

definition base0 :: agent where
  "base0 = \<lparr>frames_done = 0, num_envs = 1, logger = (\<lambda>_. [])\<rparr>"

text \<open>A full buffer of capacity 3.\<close>

definition rb3 :: "(nat, int, int, bool) replay_agent" where
  "rb3 = (ReplayBufferAgent_init 3 base0)
           \<lparr>buffer := [([10], 0, 1, [11], False), ([11], 1, 2, [12], False), ([12], 0, 3, [13], True)],
            pos := 0\<rparr>"


text \<open>
  A parent for the examples: the base \<^verbatim>\<open>see\<close>, after which the online network has the
  parameters given with the input (the result of a training step of the layer beneath).
\<close>

definition train_see :: "'p target_agent \<Rightarrow> 'p \<Rightarrow> 'p target_agent result" where
  "train_see s w = and_then (Agent_see s w) (\<lambda>s1. Inr (s1\<lparr>q_net := w\<rparr>))"

text \<open>A batch of 5 frames against a cadence of 2, and the state after one call of
  \<^verbatim>\<open>see\<close> in which the parent leaves the online parameters 9.\<close>

definition tq0 :: "nat target_agent" where
  "tq0 = \<lparr>frames_done = 0, num_envs = 5, logger = (\<lambda>_. []),
          target_update = 2, q_net = 7, target_net = 7, syncs = 0\<rparr>"

definition tq0_after :: "nat target_agent" where
  "tq0_after = \<lparr>frames_done = 5, num_envs = 5, logger = (\<lambda>_. []),
                target_update = 2, q_net = 9, target_net = 9, syncs = 1\<rparr>"

text \<open>A batch of 5 frames against a cadence of 10, from frame 5 on, and the state after
  three calls of \<^verbatim>\<open>see\<close> in which the parent leaves the online parameters 3, 8 and 4.\<close>

definition tq1 :: "nat target_agent" where
  "tq1 = \<lparr>frames_done = 5, num_envs = 5, logger = (\<lambda>_. []),
          target_update = 10, q_net = 1, target_net = 0, syncs = 0\<rparr>"

definition tq1_after :: "nat target_agent" where
  "tq1_after = \<lparr>frames_done = 20, num_envs = 5, logger = (\<lambda>_. []),
                target_update = 10, q_net = 4, target_net = 4, syncs = 2\<rparr>"

text \<open>A network and an optimizer for the examples: the observations are numbers, the value
  of an observation is the number itself with derivative 1, its entropy is the number, the
  log-probability of every action is \<open>-1\<close> with derivative 2; the optimizer leaves the
  network as it is.\<close>

definition net_ex :: "nat network" where
  "net_ex =
     \<lparr>forward = (\<lambda>obs. (\<lparr>log_prob = (\<lambda>acts. map (\<lambda>a. Dual (- 1) 2) acts),
                            entropy = map (\<lambda>ob. Dual (real ob) 0) obs\<rparr>,
                          map (\<lambda>ob. Dual (real ob) 1) obs)),
      magnitude = 0\<rparr>"

definition opt_ex :: "real option \<Rightarrow> dual \<Rightarrow> nat network \<Rightarrow> nat network" where
  "opt_ex gmax loss net = net"

definition base2 :: agent where
  "base2 = \<lparr>frames_done = 0, num_envs = 2, logger = (\<lambda>_. [])\<rparr>"

text \<open>Three time slots, one environment, rewards 1, discount 1/2.\<close>

definition a2c_returns_ex :: "nat a2c_agent" where
  "a2c_returns_ex =
     (A2C_init base0 (1 / 2) 1 0 3 None 1000 False net_ex opt_ex 0)\<lparr>rewards := [[1], [1], [1]]\<rparr>"

text \<open>Done flags of three time slots and the bootstrap slot, one environment: the episode
  ends in the second slot. Rewards whose last one is \<open>2^127\<close>, a \<^verbatim>\<open>float32\<close> number.\<close>

definition dones_ex :: "f32 list list" where
  "dones_ex = [[0], [0], [1], [0]]"

definition rewards_big_ex :: "f32 list list" where
  "rewards_big_ex = [[1], [1], [Finite (2 ^ 127)]]"

text \<open>The returns as the constructor leaves them, and rewards and values of two runs that
  differ beyond the end of the episode.\<close>

definition returns_zero_ex :: "f32 list list" where
  "returns_zero_ex = [[0], [0], [0], [0]]"

definition rewards_ex :: "f32 list list" where
  "rewards_ex = [[1], [1], [1]]"

definition rewards_ex' :: "f32 list list" where
  "rewards_ex' = [[1], [1], [Finite 40]]"

definition values_ex :: "f32 list list" where
  "values_ex = [[Finite 7], [Finite 8], [Finite 9], [Finite 5]]"

definition values_ex' :: "f32 list list" where
  "values_ex' = [[0], [0], [0], [Finite 100]]"

text \<open>One time slot and the bootstrap slot, two environments; the observations, and so
  the entropies, are 0, 0 in the first slot and 6, 0 in the bootstrap slot.\<close>

definition a2c_entropy_ex :: "nat a2c_agent" where
  "a2c_entropy_ex =
     (A2C_init base2 (1 / 2) 1 1 1 None 1000 False net_ex opt_ex 0)\<lparr>observations := [[0, 0], [6, 0]]\<rparr>"

text \<open>A fresh agent with a rollout of two steps over two environments.\<close>

definition a2c_fresh :: "nat a2c_agent" where
  "a2c_fresh = A2C_init base2 (1 / 2) 1 0 2 None 1000 True net_ex opt_ex 0"

section \<open>Results\<close>

subsection \<open>Auxiliary facts\<close>

lemma and_then_Inr:
  "and_then r f = Inr y \<longleftrightarrow> (\<exists>x. r = Inr x \<and> f x = Inr y)"
  by (cases r) (simp_all add: and_then_def)

lemma val_simps [simp]:
  "val (x + y) = val x + val y" "val (x - y) = val x - val y" "val (x * y) = val x * val y"
  "val (- x) = - val x" "val 0 = 0" "val 1 = 1" "val (scalar r) = r" "val (detach x) = val x"
  by (simp_all add: plus_dual_def minus_dual_def times_dual_def uminus_dual_def zero_dual_def
      one_dual_def scalar_def detach_def)

lemma der_simps [simp]:
  "der (x + y) = der x + der y" "der (x - y) = der x - der y"
  "der (x * y) = val x * der y + der x * val y"
  "der (- x) = - der x" "der 0 = 0" "der 1 = 0" "der (scalar r) = 0" "der (detach x) = 0"
  by (simp_all add: plus_dual_def minus_dual_def times_dual_def uminus_dual_def zero_dual_def
      one_dual_def scalar_def detach_def)

lemma loop_fields [simp]:
  "gamma (compute_returns_loop k s) = gamma s"
  "rewards (compute_returns_loop k s) = rewards s"
  "dones (compute_returns_loop k s) = dones s"
  "length (returns (compute_returns_loop k s)) = length (returns s)"
  by (induction k arbitrary: s) simp_all

lemma loop_above:
  "k \<le> j \<Longrightarrow> returns (compute_returns_loop k s) ! j = returns s ! j"
  by (induction k arbitrary: s) simp_all

lemma loop_rec:
  assumes "t < k" "k < length (returns s)"
  shows "returns (compute_returns_loop k s) ! t =
         returns_slot (gamma s) (returns (compute_returns_loop k s) ! (t + 1)) (dones s ! (t + 1))
           (rewards s ! t)"
  using assms
proof (induction k arbitrary: s)
  case 0
  then show ?case by simp
next
  case (Suc k)
  let ?s' = "s\<lparr>returns := (returns s)
            [k := returns_slot (gamma s) (returns s ! (k + 1)) (dones s ! (k + 1)) (rewards s ! k)]\<rparr>"
  show ?case
  proof (cases "t < k")
    case True
    then show ?thesis using Suc.IH[of ?s'] Suc.prems by (simp add: loop_fields)
  next
    case False
    then have t: "t = k" using Suc.prems by simp
    show ?thesis using Suc.prems by (simp add: t loop_above)
  qed
qed

lemma compute_returns_fields [simp]:
  "gamma (compute_returns s vals) = gamma s"
  "rewards (compute_returns s vals) = rewards s"
  "dones (compute_returns s vals) = dones s"
  "length (returns (compute_returns s vals)) = length (returns s)"
  by (simp_all add: compute_returns_def loop_fields)

lemma compute_returns_last:
  assumes "length (rewards s) = T" "length (returns s) = T + 1"
  shows "returns (compute_returns s vals) ! T = last vals"
  using assms by (simp add: compute_returns_def loop_above)

lemma compute_returns_rec:
  assumes "length (rewards s) = T" "length (returns s) = T + 1" "t < T"
  shows "returns (compute_returns s vals) ! t =
         returns_slot (gamma s) (returns (compute_returns s vals) ! (t + 1)) (dones s ! (t + 1))
           (rewards s ! t)"
  using assms loop_rec[of t T "s\<lparr>returns := (returns s)[length (returns s) - 1 := last vals]\<rparr>"]
  by (simp add: compute_returns_def)

lemma shape_nth: "shape rows cols tensor \<Longrightarrow> t < rows \<Longrightarrow> length (tensor ! t) = cols"
  by (auto simp: shape_def list_all_length)

lemma shape_length: "shape rows cols tensor \<Longrightarrow> length tensor = rows"
  by (simp add: shape_def)

lemma shapeI: "length tensor = rows \<Longrightarrow> (\<And>t. t < rows \<Longrightarrow> length (tensor ! t) = cols) \<Longrightarrow> shape rows cols tensor"
  by (auto simp: shape_def list_all_length)

lemma returns_slot_length:
  "length a = n \<Longrightarrow> length d = n \<Longrightarrow> length r = n \<Longrightarrow> length (returns_slot g a d r) = n"
  by (simp add: returns_slot_def)

lemma returns_slot_nth:
  "e < length a \<Longrightarrow> e < length d \<Longrightarrow> e < length r \<Longrightarrow>
   returns_slot g a d r ! e = a ! e * scalar g * (1 - d ! e) + r ! e"
  by (simp add: returns_slot_def)

lemma compute_returns_shape:
  assumes "shape T N (rewards s)" "shape (T + 1) N (dones s)" "shape (T + 1) N (returns s)"
    "shape (T + 1) N vals"
  shows "shape (T + 1) N (returns (compute_returns s vals))"
proof (rule shapeI)
  note len = shape_length[OF assms(1)] shape_length[OF assms(3)]
  show "length (returns (compute_returns s vals)) = T + 1"
    using len by (simp add: compute_returns_fields)
  have "t \<le> T \<Longrightarrow> length (returns (compute_returns s vals) ! (T - t)) = N" for t
  proof (induction t)
    case 0
    have "vals \<noteq> []" using shape_length[OF assms(4)] by auto
    then have "last vals = vals ! T" using shape_length[OF assms(4)] by (simp add: last_conv_nth)
    then show ?case using compute_returns_last[OF len] shape_nth[OF assms(4), of T] by simp
  next
    case (Suc t)
    then have lt: "T - Suc t < T" and eq: "T - Suc t + 1 = T - t" by simp_all
    show ?case
      using compute_returns_rec[OF len lt, of vals] Suc eq
        shape_nth[OF assms(2), of "T - t"] shape_nth[OF assms(1), of "T - Suc t"]
      by (simp add: returns_slot_length)
  qed
  from this[of "T - t" for t] show "t < T + 1 \<Longrightarrow> length (returns (compute_returns s vals) ! t) = N" for t
    by (metis Suc_eq_plus1 diff_diff_cancel diff_le_self less_Suc_eq_le)
qed

lemma compute_returns_entry:
  assumes "shape T N (rewards s)" "shape (T + 1) N (dones s)" "shape (T + 1) N (returns s)"
    "shape (T + 1) N vals" "t < T" "e < N"
  shows "returns (compute_returns s vals) ! t ! e =
         returns (compute_returns s vals) ! (t + 1) ! e * scalar (gamma s) * (1 - dones s ! (t + 1) ! e)
           + rewards s ! t ! e"
proof -
  note len = shape_length[OF assms(1)] shape_length[OF assms(3)]
  have "length (returns (compute_returns s vals) ! (t + 1)) = N"
    using shape_nth[OF compute_returns_shape[OF assms(1-4)], of "t + 1"] assms(5) by simp
  moreover have "length (dones s ! (t + 1)) = N" using shape_nth[OF assms(2), of "t + 1"] assms(5) by simp
  moreover have "length (rewards s ! t) = N" using shape_nth[OF assms(1) assms(5)] .
  ultimately show ?thesis
    using compute_returns_rec[OF len assms(5), of vals] assms(6) by (simp add: returns_slot_nth)
qed

lemma shape_A2C_init [simp]:
  "shape (r + 1) (num_envs base) (observations (A2C_init base g cw ew r gmax mlf nz net opt obs0))"
  "shape r (num_envs base) (rewards (A2C_init base g cw ew r gmax mlf nz net opt obs0))"
  "shape (r + 1) (num_envs base) (actions (A2C_init base g cw ew r gmax mlf nz net opt obs0))"
  "shape (r + 1) (num_envs base) (dones (A2C_init base g cw ew r gmax mlf nz net opt obs0))"
  "shape (r + 1) (num_envs base) (returns (A2C_init base g cw ew r gmax mlf nz net opt obs0))"
  by (auto simp: A2C_init_def shape_def list_all_iff)

lemma loop_only_returns:
  "compute_returns_loop k s = s\<lparr>returns := returns (compute_returns_loop k s)\<rparr>"
proof (induction k arbitrary: s)
  case 0
  show ?case by simp
next
  case (Suc k)
  let ?s' = "s\<lparr>returns := (returns s)
            [k := returns_slot (gamma s) (returns s ! (k + 1)) (dones s ! (k + 1)) (rewards s ! k)]\<rparr>"
  have "compute_returns_loop (Suc k) s = compute_returns_loop k ?s'" by simp
  also have "\<dots> = ?s'\<lparr>returns := returns (compute_returns_loop k ?s')\<rparr>" by (rule Suc.IH)
  also have "\<dots> = s\<lparr>returns := returns (compute_returns_loop (Suc k) s)\<rparr>" by simp
  finally show ?case .
qed

lemma compute_returns_only_returns:
  "compute_returns s vals = s\<lparr>returns := returns (compute_returns s vals)\<rparr>"
proof -
  let ?s0 = "s\<lparr>returns := (returns s)[length (returns s) - 1 := last vals]\<rparr>"
  have "compute_returns s vals = compute_returns_loop (length (rewards s)) ?s0"
    by (simp add: compute_returns_def)
  also have "\<dots> = ?s0\<lparr>returns := returns (compute_returns_loop (length (rewards s)) ?s0)\<rparr>"
    by (rule loop_only_returns)
  also have "\<dots> = s\<lparr>returns := returns (compute_returns s vals)\<rparr>"
    by (simp add: compute_returns_def)
  finally show ?thesis .
qed

lemma compute_returns_other_fields [simp]:
  "step (compute_returns s vals) = step s"
  "updates (compute_returns s vals) = updates s"
  "logger (compute_returns s vals) = logger s"
  "policy (compute_returns s vals) = policy s"
  "optimizer (compute_returns s vals) = optimizer s"
  "grad_norm_max (compute_returns s vals) = grad_norm_max s"
  "rollout (compute_returns s vals) = rollout s"
  "num_envs (compute_returns s vals) = num_envs s"
  "frames_done (compute_returns s vals) = frames_done s"
  "magnitude_logging_fraction (compute_returns s vals) = magnitude_logging_fraction s"
  "noisy (compute_returns s vals) = noisy s"
  by (subst compute_returns_only_returns, simp)+

lemma length_concat_rows:
  "\<forall>row\<in>set tensor. length row = cols \<Longrightarrow> length (concat tensor) = length tensor * cols"
  by (induction tensor) simp_all

lemma length_concat_shape: "shape rows cols tensor \<Longrightarrow> length (concat tensor) = rows * cols"
  using length_concat_rows[of tensor cols] by (simp add: shape_def list_all_iff)

lemma wf_a2c_frames [simp]: "wf_a2c (s\<lparr>frames_done := f\<rparr>) = wf_a2c s"
  by (simp add: wf_a2c_def)

lemma wf_A2C_init: "0 < r \<Longrightarrow> wf_a2c (A2C_init base g cw ew r gmax mlf nz net opt obs0)"
  unfolding wf_a2c_def using shape_A2C_init[of r base g cw ew gmax mlf nz net opt obs0]
  by (simp add: A2C_init_def)

lemma net_ok_net_ex: "net_ok b net_ex"
  by (simp add: net_ok_def net_ex_def)

lemma val_sum [simp]: "val (sum f A) = (\<Sum>x\<in>A. val (f x))"
  by (induction A rule: infinite_finite_induct) simp_all

lemma der_sum [simp]: "der (sum f A) = (\<Sum>x\<in>A. der (f x))"
  by (induction A rule: infinite_finite_induct) simp_all

subsection \<open>The ring buffer\<close>

lemma memorize_seq_snoc:
  "memorize_seq s (xs @ [x]) = and_then (memorize_seq s xs) (\<lambda>s1. ReplayBufferAgent_memorize s1 x)"
proof (induction xs arbitrary: s)
  case Nil
  show ?case by (cases "ReplayBufferAgent_memorize s x") (simp_all add: and_then_def)
next
  case (Cons a xs)
  show ?case by (cases "ReplayBufferAgent_memorize s a") (simp_all add: and_then_def Cons.IH)
qed

lemma suc_mod_int: "0 < c \<Longrightarrow> (int (n mod c) + 1) mod int c = int (Suc n mod c)"
proof -
  have "(int (n mod c) + 1) mod int c = int ((n mod c + 1) mod c)"
    by (simp add: zmod_int add.commute)
  also have "(n mod c + 1) mod c = Suc n mod c"
    by (simp add: mod_Suc_eq)
  finally show ?thesis .
qed

lemma mod_neq_recent:
  assumes "0 < (c::nat)" "j < n" "n - j < c" 
  shows "j mod c \<noteq> n mod c"
proof
  assume eq: "j mod c = n mod c"
  have "j \<le> n" using assms(2) by simp
  then have "c dvd n - j" using eq[symmetric] by (simp add: mod_eq_dvd_iff_nat)
  then show False using assms by (simp add: nat_dvd_not_less)
qed

lemma memorize_append:
  assumes "0 < c" "ring_inv c ys n s" "n < c"
  shows "ReplayBufferAgent_memorize s x = Inr (s\<lparr>buffer := buffer s @ [stored x], pos := int (Suc n mod c)\<rparr>)"
proof -
  obtain st a r ns d e where x: "x = (st, a, r, ns, d, e)" by (cases x) auto
  from assms have "len s < replay_buffer_capacity s" "pos s = int (n mod c)" "replay_buffer_capacity s = int c"
    by (auto simp: ring_inv_def len_def)
  then show ?thesis using assms(1)
    by (simp add: x memorize_def and_then_def py_mod_def expand_dims_def suc_mod_int)
qed

lemma memorize_overwrite:
  assumes "0 < c" "ring_inv c ys n s" "c \<le> n"
  shows "ReplayBufferAgent_memorize s x = Inr (s\<lparr>buffer := (buffer s)[n mod c := stored x], pos := int (Suc n mod c)\<rparr>)"
proof -
  obtain st a r ns d e where x: "x = (st, a, r, ns, d, e)" by (cases x) auto
  from assms have "\<not> len s < replay_buffer_capacity s" "pos s = int (n mod c)" "replay_buffer_capacity s = int c"
     "length (buffer s) = c"
    by (auto simp: ring_inv_def len_def)
  then show ?thesis using assms(1)
    by (simp add: x memorize_def and_then_def py_mod_def expand_dims_def suc_mod_int list_setitem_def Let_def)
qed

lemma ring_inv_append:
  assumes "0 < c" "ring_inv c ys n s" "n < c" "ys ! n = y"
  shows "ring_inv c ys (Suc n) (s\<lparr>buffer := buffer s @ [y], pos := int (Suc n mod c)\<rparr>)"
  using assms by (auto simp: ring_inv_def nth_append less_Suc_eq)

lemma ring_inv_overwrite:
  assumes "0 < c" "ring_inv c ys n s" "c \<le> n" "ys ! n = y"
  shows "ring_inv c ys (Suc n) (s\<lparr>buffer := (buffer s)[n mod c := y], pos := int (Suc n mod c)\<rparr>)"
proof -
  have len: "length (buffer s) = c" using assms by (auto simp: ring_inv_def)
  have "buffer s ! (j mod c) = ys ! j" if "j < n" "n - j \<le> c" for j
    using assms that by (auto simp: ring_inv_def)
  then have "((buffer s)[n mod c := y]) ! (j mod c) = ys ! j" if "j < Suc n" "Suc n - j \<le> c" for j
  proof (cases "j = n")
    case True
    then show ?thesis using len assms by simp
  next
    case False
    then have "j < n" "n - j < c" using that by auto
    then have "j mod c \<noteq> n mod c" using mod_neq_recent assms(1) by blast
    then show ?thesis using \<open>j < n\<close> \<open>n - j < c\<close> assms by (auto simp: ring_inv_def)
  qed
  then show ?thesis using assms len by (auto simp: ring_inv_def)
qed

lemma ring_inv_init: "ring_inv c ys 0 (ReplayBufferAgent_init (int c) base)"
  by (simp add: ring_inv_def ReplayBufferAgent_init_def)

lemma memorize_step:
  assumes "0 < c" "ring_inv c ys n s" "ys ! n = stored x"
  shows "\<exists>s'. ReplayBufferAgent_memorize s x = Inr s' \<and> ring_inv c ys (Suc n) s' \<and>
           buffer s' = (if n < c then buffer s @ [stored x] else (buffer s)[nat (pos s) := stored x]) \<and>
           pos s' = (pos s + 1) mod int c"
proof -
  have p: "pos s = int (n mod c)" using assms(2) by (simp add: ring_inv_def)
  have q: "int (Suc n mod c) = (pos s + 1) mod int c"
    unfolding p using suc_mod_int[OF assms(1), of n] by simp
  have np: "nat (pos s) = n mod c" unfolding p by simp
  show ?thesis
  proof (cases "n < c")
    case True
    let ?s' = "s\<lparr>buffer := buffer s @ [stored x], pos := int (Suc n mod c)\<rparr>"
    have "ReplayBufferAgent_memorize s x = Inr ?s'"
      by (rule memorize_append[OF assms(1,2) True])
    moreover have "ring_inv c ys (Suc n) ?s'"
      by (rule ring_inv_append[OF assms(1,2) True assms(3)])
    moreover have "buffer ?s' = (if n < c then buffer s @ [stored x] else (buffer s)[nat (pos s) := stored x])"
      using True by simp
    moreover have "pos ?s' = (pos s + 1) mod int c" using q by simp
    ultimately show ?thesis by blast
  next
    case False
    then have le: "c \<le> n" by simp
    let ?s' = "s\<lparr>buffer := (buffer s)[n mod c := stored x], pos := int (Suc n mod c)\<rparr>"
    have "ReplayBufferAgent_memorize s x = Inr ?s'"
      by (rule memorize_overwrite[OF assms(1,2) le])
    moreover have "ring_inv c ys (Suc n) ?s'"
      by (rule ring_inv_overwrite[OF assms(1,2) le assms(3)])
    moreover have "buffer ?s' = (if n < c then buffer s @ [stored x] else (buffer s)[nat (pos s) := stored x])"
      using False np by simp
    moreover have "pos ?s' = (pos s + 1) mod int c" using q by simp
    ultimately show ?thesis by blast
  qed
qed

lemma memorize_seq_prefix:
  assumes "0 < c" "n \<le> length xs"
  shows "\<exists>s. memorize_seq (ReplayBufferAgent_init (int c) base) (take n xs) = Inr s \<and>
           ring_inv c (map stored xs) n s"
  using assms(2)
proof (induction n)
  case 0
  show ?case by (simp add: ring_inv_init)
next
  case (Suc n)
  then obtain s where s: "memorize_seq (ReplayBufferAgent_init (int c) base) (take n xs) = Inr s"
    "ring_inv c (map stored xs) n s" by auto
  have n: "n < length xs" using Suc.prems by simp
  have "map stored xs ! n = stored (xs ! n)" using n by simp
  from memorize_step[OF assms(1) s(2) this]
  obtain s' where s': "ReplayBufferAgent_memorize s (xs ! n) = Inr s'" "ring_inv c (map stored xs) (Suc n) s'"
    by blast
  have "take (Suc n) xs = take n xs @ [xs ! n]" using n by (simp add: take_Suc_conv_app_nth)
  then show ?case using s s' by (simp add: memorize_seq_snoc and_then_def)
qed

lemma ring_inv_rotate:
  assumes "0 < c" "ring_inv c ys n s" "c \<le> n" "n \<le> length ys"
  shows "rotate (nat (pos s)) (buffer s) = drop (n - c) (take n ys)"
proof (rule nth_equalityI)
  have len: "length (buffer s) = c" using assms by (auto simp: ring_inv_def)
  show "length (rotate (nat (pos s)) (buffer s)) = length (drop (n - c) (take n ys))"
    using assms len by simp
  fix i assume "i < length (rotate (nat (pos s)) (buffer s))"
  then have i: "i < c" using len by simp
  have p: "nat (pos s) = n mod c" using assms by (auto simp: ring_inv_def)
  have "rotate (nat (pos s)) (buffer s) ! i = buffer s ! ((n mod c + i) mod c)"
    using i len by (simp add: nth_rotate p)
  also have "(n mod c + i) mod c = (n - c + i) mod c"
  proof -
    have "(n - c + i) mod c = (n - c + i + c) mod c" by simp
    also have "n - c + i + c = n + i" using assms(3) by simp
    finally show ?thesis by (simp add: mod_add_left_eq)
  qed
  also have "buffer s ! ((n - c + i) mod c) = ys ! (n - c + i)"
    using assms i by (auto simp: ring_inv_def)
  also have "\<dots> = drop (n - c) (take n ys) ! i"
    using assms i by simp
  finally show "rotate (nat (pos s)) (buffer s) ! i = drop (n - c) (take n ys) ! i" .
qed

text \<open>
  Claim C2. On a fresh agent of capacity \<open>capacity > 0\<close>, after \<open>capacity + k\<close> calls of
  \<^verbatim>\<open>memorize\<close> with \<open>k > 0\<close>, the length of the buffer is the capacity, and the buffer read
  from slot \<open>pos\<close> on, cyclically, is the list of the last \<open>capacity\<close> transitions in the
  order of the calls. In each call of the run the buffer grows by the new tuple at its end
  while it is below capacity, afterwards only slot \<open>pos\<close> is overwritten, and \<open>pos\<close> becomes
  \<open>(pos + 1) mod capacity\<close>.
\<close>

theorem replay_buffer_ring:
  fixes xs :: "('o \<times> 'c \<times> 'r \<times> 'o \<times> 'd \<times> 'e) list"
  assumes "0 < capacity" and "length xs = nat capacity + k" and "0 < k"
  shows "(\<exists>s'. memorize_seq (ReplayBufferAgent_init capacity base) xs = Inr s' \<and>
            len s' = capacity \<and> pos s' = int (length xs) mod capacity \<and>
            rotate (nat (pos s')) (buffer s') = drop k (map stored xs)) \<and>
         (\<forall>n<length xs. \<exists>s1 s2.
            memorize_seq (ReplayBufferAgent_init capacity base) (take n xs) = Inr s1 \<and>
            ReplayBufferAgent_memorize s1 (xs ! n) = Inr s2 \<and>
            memorize_seq (ReplayBufferAgent_init capacity base) (take (Suc n) xs) = Inr s2 \<and>
            len s1 = min (int n) capacity \<and>
            buffer s2 = (if len s1 < capacity then buffer s1 @ [stored (xs ! n)]
                         else (buffer s1)[nat (pos s1) := stored (xs ! n)]) \<and>
            pos s2 = (pos s1 + 1) mod capacity)"
proof -
  define c where "c = nat capacity"
  have c: "0 < c" "capacity = int c" using assms(1) by (simp_all add: c_def)
  let ?init = "ReplayBufferAgent_init (int c) base :: ('o, 'c, 'r, 'd) replay_agent"
  let ?ys = "map stored xs"
  have len_xs: "length xs = c + k" using assms(2) by (simp add: c_def)
  have final: "\<exists>s'. memorize_seq ?init xs = Inr s' \<and> len s' = int c \<and>
      pos s' = int (length xs) mod int c \<and> rotate (nat (pos s')) (buffer s') = drop k ?ys"
  proof -
    from memorize_seq_prefix[OF c(1), of "length xs" xs base]
    obtain s' where s': "memorize_seq ?init xs = Inr s'" "ring_inv c ?ys (length xs) s'"
      by auto
    have "rotate (nat (pos s')) (buffer s') = drop (length xs - c) (take (length xs) ?ys)"
      by (rule ring_inv_rotate[OF c(1) s'(2)]) (simp_all add: len_xs)
    then have "rotate (nat (pos s')) (buffer s') = drop k ?ys" by (simp add: len_xs)
    moreover have "len s' = int c" using s'(2) by (simp add: ring_inv_def len_def len_xs)
    moreover have "pos s' = int (length xs) mod int c"
      using s'(2) by (simp add: ring_inv_def zmod_int)
    ultimately show ?thesis using s'(1) by blast
  qed
  have steps: "\<exists>s1 s2. memorize_seq ?init (take n xs) = Inr s1 \<and>
      ReplayBufferAgent_memorize s1 (xs ! n) = Inr s2 \<and>
      memorize_seq ?init (take (Suc n) xs) = Inr s2 \<and>
      len s1 = min (int n) (int c) \<and>
      buffer s2 = (if len s1 < int c then buffer s1 @ [stored (xs ! n)]
                   else (buffer s1)[nat (pos s1) := stored (xs ! n)]) \<and>
      pos s2 = (pos s1 + 1) mod int c" if n: "n < length xs" for n
  proof -
    from memorize_seq_prefix[OF c(1), of n xs base] n
    obtain s1 where s1: "memorize_seq ?init (take n xs) = Inr s1" "ring_inv c ?ys n s1"
      by auto
    have "?ys ! n = stored (xs ! n)" using n by simp
    from memorize_step[OF c(1) s1(2) this]
    obtain s2 where s2: "ReplayBufferAgent_memorize s1 (xs ! n) = Inr s2"
      "buffer s2 = (if n < c then buffer s1 @ [stored (xs ! n)]
                    else (buffer s1)[nat (pos s1) := stored (xs ! n)])"
      "pos s2 = (pos s1 + 1) mod int c"
      by blast
    have l1: "len s1 = min (int n) (int c)" using s1(2) by (simp add: ring_inv_def len_def)
    then have "len s1 < int c \<longleftrightarrow> n < c" by auto
    then have b: "buffer s2 = (if len s1 < int c then buffer s1 @ [stored (xs ! n)]
                    else (buffer s1)[nat (pos s1) := stored (xs ! n)])"
      using s2(2) by simp
    have "take (Suc n) xs = take n xs @ [xs ! n]" using n by (simp add: take_Suc_conv_app_nth)
    then have "memorize_seq ?init (take (Suc n) xs) = Inr s2"
      using s1(1) s2(1) by (simp add: memorize_seq_snoc and_then_def)
    then show ?thesis using s1(1) s2(1,3) l1 b by blast
  qed
  show ?thesis using final steps unfolding c(2) by blast
qed

theorem replay_buffer_ring_witness:
  "(0::int) < 2 \<and> (0::nat) < 1 \<and>
   length [(10::nat, 0::int, 1::int, 11::nat, False, False), (11, 1, 1, 12, False, False),
           (12, 0, 1, 13, True, True)] = nat 2 + 1 \<and>
   (\<exists>s'. memorize_seq (ReplayBufferAgent_init 2 base0)
            [(10::nat, 0::int, 1::int, 11::nat, False, False), (11, 1, 1, 12, False, False), (12, 0, 1, 13, True, True)] = Inr s' \<and>
          len s' = 2 \<and> pos s' = 1 \<and>
          buffer s' = [([12], 0, 1, [13], True), ([11], 1, 1, [12], False)] \<and>
          rotate (nat (pos s')) (buffer s') = [([11], 1, 1, [12], False), ([12], 0, 1, [13], True)])"
  using replay_buffer_ring[of 2 "[(10::nat, 0::int, 1::int, 11::nat, False, False),
      (11, 1, 1, 12, False, False), (12, 0, 1, 13, True, True)]" 1 base0]
  by (simp add: ReplayBufferAgent_init_def base0_def memorize_def and_then_def len_def py_mod_def list_setitem_def expand_dims_def)

subsection \<open>Sampling and the sixth argument\<close>












lemma list_setitem_Inr:
  assumes "list_setitem xs i v = Inr b"
  shows "\<exists>j<length xs. b = xs[j := v]"
proof (cases "0 \<le> i")
  case True
  with assms have "nat i < length xs \<and> b = xs[nat i := v]"
    by (auto simp: list_setitem_def split: if_splits)
  then show ?thesis by blast
next
  case False
  with assms have "nat (int (length xs) + i) < length xs \<and> b = xs[nat (int (length xs) + i) := v]"
    by (auto simp: list_setitem_def split: if_splits)
  then show ?thesis by blast
qed

text \<open>
  Claim C10. \<^verbatim>\<open>memorize\<close> takes a sixth argument \<open>died\<close> and its result does not depend
  on it: the tuple written, at the end of the buffer or over one slot, is
  \<^verbatim>\<open>(expand_dims(state), action, reward, expand_dims(next_state), done)\<close>. In \<^verbatim>\<open>see\<close> the
  argument reaches only the parent's \<^verbatim>\<open>see\<close>, and over the base agent the whole result
  of \<^verbatim>\<open>see\<close> is independent of it.
\<close>

theorem died_not_stored:
  "memorize s state action reward next_state done died =
     memorize s state action reward next_state done died' \<and>
   (\<forall>s'. memorize s state action reward next_state done died = Inr s' \<longrightarrow>
      buffer s' = buffer s @ [(expand_dims state, action, reward, expand_dims next_state, done)] \<or>
      (\<exists>i<length (buffer s).
         buffer s' = (buffer s)[i := (expand_dims state, action, reward, expand_dims next_state, done)])) \<and>
   ReplayBufferAgent_see super_see s (state, action, reward, next_state, done, died) =
     and_then (memorize s state action reward next_state done died')
       (\<lambda>s1. super_see s1 (state, action, reward, next_state, done, died)) \<and>
   ReplayBufferAgent_see Agent_see s (state, action, reward, next_state, done, died) =
     ReplayBufferAgent_see Agent_see s (state, action, reward, next_state, done, died')"
proof -
  have a: "memorize s state action reward next_state done d1 =
     memorize s state action reward next_state done d2" for d1 d2
    by (simp add: memorize_def)
  have b: "buffer s' = buffer s @ [(expand_dims state, action, reward, expand_dims next_state, done)] \<or>
      (\<exists>i<length (buffer s).
         buffer s' = (buffer s)[i := (expand_dims state, action, reward, expand_dims next_state, done)])"
    if "memorize s state action reward next_state done died = Inr s'" for s'
  proof -
    let ?t = "(expand_dims state, action, reward, expand_dims next_state, done)"
    from that obtain b where b: "(if len s < replay_buffer_capacity s then Inr (buffer s @ [?t])
        else list_setitem (buffer s) (pos s) ?t) = Inr b" and s': "buffer s' = b"
      by (auto simp: memorize_def Let_def and_then_Inr)
    show ?thesis
    proof (cases "len s < replay_buffer_capacity s")
      case True
      then show ?thesis using b s' by simp
    next
      case False
      then have "list_setitem (buffer s) (pos s) ?t = Inr b" using b by simp
      from list_setitem_Inr[OF this] show ?thesis using s' by blast
    qed
  qed
  have c: "ReplayBufferAgent_see super_see s (state, action, reward, next_state, done, died) =
     and_then (memorize s state action reward next_state done died')
       (\<lambda>s1. super_see s1 (state, action, reward, next_state, done, died))"
    by (simp add: ReplayBufferAgent_see_def a[of died died'])
  have d: "ReplayBufferAgent_see Agent_see s (state, action, reward, next_state, done, died) =
     ReplayBufferAgent_see Agent_see s (state, action, reward, next_state, done, died')"
    by (simp add: ReplayBufferAgent_see_def a[of died died'] Agent_see_def)
  show ?thesis using a[of died died'] b c d by blast
qed

theorem died_not_stored_witness:
  "memorize rb3 13 1 4 14 False True = memorize rb3 13 1 4 14 False False \<and>
   memorize rb3 13 1 4 14 False True =
     Inr (rb3\<lparr>buffer := [([13], 1, 4, [14], False), ([11], 1, 2, [12], False), ([12], 0, 3, [13], True)],
              pos := 1\<rparr>)"
  using died_not_stored[of rb3 13 1 4 14 False True False]
  by (simp add: memorize_def rb3_def ReplayBufferAgent_init_def len_def list_setitem_def
      py_mod_def and_then_def expand_dims_def)

subsection \<open>The cadence of the target network\<close>

lemma div_mult_bounds:
  fixes u f :: int
  assumes "0 < u"
  shows "f div u * u \<le> f" and "f < (f div u + 1) * u"
proof -
  have b: "f div u * u + f mod u = f" by simp
  have e: "(f div u + 1) * u = f div u * u + u" by (simp add: algebra_simps)
  show "f div u * u \<le> f" using b pos_mod_sign[OF assms, of f] by linarith
  show "f < (f div u + 1) * u" using b e pos_mod_bound[OF assms, of f] by linarith
qed

lemma sync_due_iff:
  fixes u f n :: int
  assumes "0 < u"
  shows "(f + n) mod u < n \<longleftrightarrow> (\<exists>m. f < m * u \<and> m * u \<le> f + n)"
proof
  have a: "(f + n) div u * u + (f + n) mod u = f + n" by simp
  assume "(f + n) mod u < n"
  with a have "f < (f + n) div u * u" by linarith
  then show "\<exists>m. f < m * u \<and> m * u \<le> f + n"
    using div_mult_bounds(1)[OF assms, of "f + n"] by blast
next
  have a: "(f + n) div u * u + (f + n) mod u = f + n" by simp
  assume "\<exists>m. f < m * u \<and> m * u \<le> f + n"
  then obtain m where m: "f < m * u" "m * u \<le> f + n" by blast
  have "m * u < ((f + n) div u + 1) * u"
    using m(2) div_mult_bounds(2)[OF assms, of "f + n"] by linarith
  then have "m < (f + n) div u + 1" using assms by (simp only: mult_less_cancel_right_pos)
  then have "m \<le> (f + n) div u" by simp
  then have "m * u \<le> (f + n) div u * u" using assms by (simp add: mult_right_mono)
  with m(1) a show "(f + n) mod u < n" by linarith
qed

lemma sync_due_div:
  fixes u f n :: int
  assumes "0 < u"
  shows "(f + n) mod u < n \<longleftrightarrow> f div u < (f + n) div u"
proof
  have a: "(f + n) div u * u + (f + n) mod u = f + n" by simp
  assume "(f + n) mod u < n"
  with a have "f < (f + n) div u * u" by linarith
  then have "f div u * u < (f + n) div u * u"
    using div_mult_bounds(1)[OF assms, of f] by linarith
  then show "f div u < (f + n) div u" using assms by (simp only: mult_less_cancel_right_pos)
next
  have a: "(f + n) div u * u + (f + n) mod u = f + n" by simp
  assume "f div u < (f + n) div u"
  then have "f div u + 1 \<le> (f + n) div u" by simp
  then have "(f div u + 1) * u \<le> (f + n) div u * u" using assms by (simp only: mult_right_mono)
  then have "f < (f + n) div u * u"
    using div_mult_bounds(2)[OF assms, of f] by linarith
  with a show "(f + n) mod u < n" by linarith
qed

lemma div_step_le_one:
  fixes u f n :: int
  assumes "0 < u" "0 \<le> n" "n \<le> u"
  shows "(f + n) div u = (if (f + n) mod u < n then f div u + 1 else f div u)"
proof -
  have lo: "f div u \<le> (f + n) div u" using assms by (simp add: zdiv_mono1)
  have e: "(f div u + 2) * u = (f div u + 1) * u + u" by (simp add: algebra_simps)
  have "(f + n) div u * u < (f div u + 2) * u"
    using div_mult_bounds(1)[OF assms(1), of "f + n"] div_mult_bounds(2)[OF assms(1), of f] e assms
    by linarith
  then have "(f + n) div u < f div u + 2" using assms by (simp only: mult_less_cancel_right_pos)
  then show ?thesis using lo sync_due_div[OF assms(1), of f n] by auto
qed

lemma TargetQAgent_see_cases:
  assumes "parent_contract super_see" "0 < target_update s"
    and "TargetQAgent_see super_see s x = Inr s'"
  shows "frames_done s' = frames_done s + int (num_envs s) \<and> num_envs s' = num_envs s \<and>
         target_update s' = target_update s \<and>
         (if (frames_done s + int (num_envs s)) mod target_update s < int (num_envs s)
          then target_net s' = q_net s' \<and> syncs s' = Suc (syncs s)
          else target_net s' = target_net s \<and> syncs s' = syncs s)"
proof -
  from assms(3) obtain s1 where s1: "super_see s x = Inr s1" "sync_if_due s1 x = Inr s'"
    by (auto simp: TargetQAgent_see_def and_then_Inr)
  from assms(1) s1(1) have c: "frames_done s1 = frames_done s + int (num_envs s)"
    "num_envs s1 = num_envs s" "target_update s1 = target_update s"
    "target_net s1 = target_net s" "syncs s1 = syncs s"
    unfolding parent_contract_def by blast+
  have "s' = (if frames_done s1 mod target_update s1 < int (num_envs s1) then unfreeze s1 else s1)"
    using s1(2) assms(2) c(3) by (auto simp: sync_if_due_def py_mod_def and_then_def split: if_splits)
  then show ?thesis using c by (simp add: unfreeze_def)
qed

lemma TargetQAgent_run_count:
  assumes "parent_contract super_see" "0 < target_update s"
    and "TargetQAgent_run super_see s xs = Inr s'"
  shows "frames_done s' = frames_done s + int (length xs) * int (num_envs s) \<and>
         num_envs s' = num_envs s \<and> target_update s' = target_update s \<and>
         syncs s \<le> syncs s' \<and>
         (int (num_envs s) \<le> target_update s \<longrightarrow>
            int (syncs s') - int (syncs s) =
              frames_done s' div target_update s - frames_done s div target_update s) \<and>
         (frames_done s' div target_update s = frames_done s div target_update s \<longrightarrow>
            target_net s' = target_net s \<and> syncs s' = syncs s)"
  using assms(2,3)
proof (induction xs arbitrary: s)
  case Nil
  then show ?case by simp
next
  case (Cons x xs)
  from Cons.prems(2) obtain s1 where s1: "TargetQAgent_see super_see s x = Inr s1"
    "TargetQAgent_run super_see s1 xs = Inr s'"
    by (auto simp: and_then_Inr)
  let ?u = "target_update s" and ?n = "int (num_envs s)" and ?f = "frames_done s"
  note st = TargetQAgent_see_cases[OF assms(1) Cons.prems(1) s1(1)]
  have u1: "0 < target_update s1" using st Cons.prems(1) by simp
  note ih = Cons.IH[OF u1 s1(2)]
  have f': "frames_done s' = ?f + int (length (x # xs)) * ?n"
    using ih st by (simp add: algebra_simps)
  have mono1: "?f div ?u \<le> frames_done s1 div ?u"
    using st Cons.prems(1) by (simp add: zdiv_mono1)
  have mono2: "frames_done s1 div ?u \<le> frames_done s' div ?u"
    using ih st Cons.prems(1) by (simp add: zdiv_mono1)
  have count: "int (syncs s') - int (syncs s) = frames_done s' div ?u - ?f div ?u" if le: "?n \<le> ?u"
  proof -
    have a: "int (syncs s') - int (syncs s1) = frames_done s' div ?u - frames_done s1 div ?u"
      using ih st le by simp
    have b: "int (syncs s1) - int (syncs s) = frames_done s1 div ?u - ?f div ?u"
      using st div_step_le_one[OF Cons.prems(1) _ le, of ?f] by (simp split: if_splits)
    from a b show ?thesis by linarith
  qed
  have fixed: "target_net s' = target_net s \<and> syncs s' = syncs s"
    if eq: "frames_done s' div ?u = ?f div ?u"
  proof -
    from eq mono1 mono2 have e1: "frames_done s1 div ?u = ?f div ?u"
      and e2: "frames_done s' div ?u = frames_done s1 div ?u" by linarith+
    have "\<not> (?f + ?n) mod ?u < ?n"
      using e1 st sync_due_div[OF Cons.prems(1), of ?f ?n] by simp
    then have "target_net s1 = target_net s \<and> syncs s1 = syncs s" using st by simp
    moreover have "target_net s' = target_net s1 \<and> syncs s' = syncs s1" using ih e2 st by simp
    ultimately show ?thesis by simp
  qed
  have "syncs s \<le> syncs s1" using st by (simp split: if_splits)
  then have "syncs s \<le> syncs s'" using ih by simp
  then show ?case using f' ih st count fixed by simp
qed

lemma parent_contract_train_see: "parent_contract train_see"
  by (auto simp: parent_contract_def train_see_def Agent_see_def and_then_def)

text \<open>
  Claim C3, as amended. Over a parent whose \<^verbatim>\<open>see\<close> advances \<open>frames_done\<close> by \<open>num_envs\<close>,
  and with \<open>target_update > 0\<close>: a call of \<^verbatim>\<open>see\<close> syncs exactly when the frames of that
  call crossed at least one multiple of \<open>target_update\<close>; right after a sync the target
  parameters are the online parameters, and a call that does not sync leaves the target
  parameters as they were, whatever the parent did to the online ones. When
  \<open>num_envs \<le> target_update\<close>, the number of syncs of a run is the number of multiples of
  \<open>target_update\<close> that \<open>frames_done\<close> crossed, and a run that crosses none leaves the
  target parameters fixed.
\<close>

theorem target_sync_cadence:
  assumes "parent_contract super_see" and "0 < target_update s"
  shows "(\<forall>x s'. TargetQAgent_see super_see s x = Inr s' \<longrightarrow>
            frames_done s' = frames_done s + int (num_envs s) \<and>
            (if \<exists>m. frames_done s < m * target_update s \<and> m * target_update s \<le> frames_done s'
             then target_net s' = q_net s' \<and> syncs s' = Suc (syncs s)
             else target_net s' = target_net s \<and> syncs s' = syncs s)) \<and>
         (\<forall>xs s'. TargetQAgent_run super_see s xs = Inr s' \<longrightarrow>
            frames_done s' = frames_done s + int (length xs) * int (num_envs s) \<and>
            (int (num_envs s) \<le> target_update s \<longrightarrow>
               int (syncs s') - int (syncs s) =
                 frames_done s' div target_update s - frames_done s div target_update s) \<and>
            (frames_done s' div target_update s = frames_done s div target_update s \<longrightarrow>
               target_net s' = target_net s \<and> syncs s' = syncs s))"
proof -
  have one: "frames_done s' = frames_done s + int (num_envs s) \<and>
      (if \<exists>m. frames_done s < m * target_update s \<and> m * target_update s \<le> frames_done s'
       then target_net s' = q_net s' \<and> syncs s' = Suc (syncs s)
       else target_net s' = target_net s \<and> syncs s' = syncs s)"
    if "TargetQAgent_see super_see s x = Inr s'" for x s'
  proof -
    note st = TargetQAgent_see_cases[OF assms that]
    have "(frames_done s + int (num_envs s)) mod target_update s < int (num_envs s) \<longleftrightarrow>
          (\<exists>m. frames_done s < m * target_update s \<and> m * target_update s \<le> frames_done s')"
      using sync_due_iff[OF assms(2), of "frames_done s" "int (num_envs s)"] st by simp
    then show ?thesis using st by presburger
  qed
  have many: "frames_done s' = frames_done s + int (length xs) * int (num_envs s) \<and>
      (int (num_envs s) \<le> target_update s \<longrightarrow>
         int (syncs s') - int (syncs s) =
           frames_done s' div target_update s - frames_done s div target_update s) \<and>
      (frames_done s' div target_update s = frames_done s div target_update s \<longrightarrow>
         target_net s' = target_net s \<and> syncs s' = syncs s)"
    if "TargetQAgent_run super_see s xs = Inr s'" for xs s'
    using TargetQAgent_run_count[OF assms that] by blast
  show ?thesis using one many by blast
qed

theorem target_sync_cadence_witness:
  "parent_contract (train_see :: nat target_agent \<Rightarrow> nat \<Rightarrow> nat target_agent result) \<and>
   0 < target_update tq1 \<and> int (num_envs tq1) \<le> target_update tq1 \<and>
   TargetQAgent_run train_see tq1 [3, 8, 4] = Inr tq1_after \<and>
   int (syncs tq1_after) - int (syncs tq1) =
     frames_done tq1_after div target_update tq1 - frames_done tq1 div target_update tq1"
proof -
  have c: "parent_contract (train_see :: nat target_agent \<Rightarrow> nat \<Rightarrow> nat target_agent result)"
    by (rule parent_contract_train_see)
  have u: "0 < target_update tq1" by (simp add: tq1_def)
  have r: "TargetQAgent_run train_see tq1 [3, 8, 4] = Inr tq1_after"
    by (simp add: tq1_def tq1_after_def TargetQAgent_see_def train_see_def Agent_see_def
        sync_if_due_def py_mod_def unfreeze_def and_then_def)
  have n: "int (num_envs tq1) \<le> target_update tq1" by (simp add: tq1_def)
  from target_sync_cadence[OF c u] r n
  have "int (syncs tq1_after) - int (syncs tq1) =
     frames_done tq1_after div target_update tq1 - frames_done tq1 div target_update tq1"
    by blast
  with c u n r show ?thesis by blast
qed

text \<open>
  Claim C3 as stated fails when a batch of frames is larger than the cadence: with
  \<open>target_update = 2\<close> and \<open>num_envs = 5\<close> one call of \<^verbatim>\<open>see\<close> crosses the multiples 2 and 4
  and syncs once.
\<close>

theorem target_sync_counterexample:
  "TargetQAgent_see train_see tq0 9 = Inr tq0_after \<and>
   frames_done tq0 < 1 * target_update tq0 \<and> 1 * target_update tq0 \<le> frames_done tq0_after \<and>
   frames_done tq0 < 2 * target_update tq0 \<and> 2 * target_update tq0 \<le> frames_done tq0_after \<and>
   syncs tq0_after = syncs tq0 + 1 \<and>
   int (syncs tq0_after) - int (syncs tq0) \<noteq>
     frames_done tq0_after div target_update tq0 - frames_done tq0 div target_update tq0"
  by (simp add: tq0_def tq0_after_def TargetQAgent_see_def train_see_def Agent_see_def
      sync_if_due_def py_mod_def unfreeze_def and_then_def)

subsection \<open>The returns\<close>

text \<open>
  Claim C1. With the tensors in the shapes of the constructor (\<open>T\<close> time slots of rewards,
  \<open>T + 1\<close> of done flags, returns and values, \<open>N\<close> environments), after
  \<^verbatim>\<open>compute_returns(values)\<close> slot \<open>T\<close> of the returns is slot \<open>T\<close> of the values and, for every
  \<open>t < T\<close> and every environment, \<open>returns[t] = returns[t+1] * gamma * (1 - dones[t+1]) +
  rewards[t]\<close>. Where \<open>dones[t+1]\<close> is 0 this is the discounted sum
  \<open>rewards[t] + gamma * returns[t+1]\<close>. The rewards and the done flags are left as they were.
\<close>

theorem compute_returns_recursion:
  assumes "shape T N (rewards s)" and "shape (T + 1) N (dones s)"
    and "shape (T + 1) N (returns s)" and "shape (T + 1) N vals"
  shows "returns (compute_returns s vals) ! T = vals ! T \<and>
         (\<forall>t<T. \<forall>e<N.
            returns (compute_returns s vals) ! t ! e =
              returns (compute_returns s vals) ! (t + 1) ! e * scalar (gamma s)
                * (1 - dones s ! (t + 1) ! e) + rewards s ! t ! e) \<and>
         (\<forall>t<T. \<forall>e<N. dones s ! (t + 1) ! e = 0 \<longrightarrow>
            returns (compute_returns s vals) ! t ! e =
              rewards s ! t ! e + scalar (gamma s) * returns (compute_returns s vals) ! (t + 1) ! e) \<and>
         shape (T + 1) N (returns (compute_returns s vals)) \<and>
         rewards (compute_returns s vals) = rewards s \<and> dones (compute_returns s vals) = dones s"
proof -
  note len = shape_length[OF assms(1)] shape_length[OF assms(3)]
  have "vals \<noteq> []" using shape_length[OF assms(4)] by auto
  then have "last vals = vals ! T" using shape_length[OF assms(4)] by (simp add: last_conv_nth)
  then have a: "returns (compute_returns s vals) ! T = vals ! T"
    using compute_returns_last[OF len] by simp
  have b: "returns (compute_returns s vals) ! t ! e =
      returns (compute_returns s vals) ! (t + 1) ! e * scalar (gamma s)
        * (1 - dones s ! (t + 1) ! e) + rewards s ! t ! e" if "t < T" "e < N" for t e
    by (rule compute_returns_entry[OF assms that])
  have c: "returns (compute_returns s vals) ! t ! e =
      rewards s ! t ! e + scalar (gamma s) * returns (compute_returns s vals) ! (t + 1) ! e"
    if "t < T" "e < N" "dones s ! (t + 1) ! e = 0" for t e
    using b[OF that(1,2)] that(3) by (simp add: algebra_simps)
  show ?thesis using a b c compute_returns_shape[OF assms] by auto
qed

theorem compute_returns_recursion_witness:
  "shape 3 1 (rewards a2c_returns_ex) \<and> shape (3 + 1) 1 (dones a2c_returns_ex) \<and>
   shape (3 + 1) 1 (returns a2c_returns_ex) \<and>
   shape (3 + 1) 1 [[Dual 7 0], [Dual 8 0], [Dual 9 0], [Dual 5 1]] \<and>
   gamma a2c_returns_ex = 1 / 2 \<and> rewards a2c_returns_ex = [[1], [1], [1]] \<and>
   returns (compute_returns a2c_returns_ex [[Dual 7 0], [Dual 8 0], [Dual 9 0], [Dual 5 1]]) =
     [[Dual (19 / 8) (1 / 8)], [Dual (11 / 4) (1 / 4)], [Dual (7 / 2) (1 / 2)], [Dual 5 1]]"
  using compute_returns_recursion[of 3 1 a2c_returns_ex "[[Dual 7 0], [Dual 8 0], [Dual 9 0], [Dual 5 1]]"]
  by (simp add: a2c_returns_ex_def A2C_init_def base0_def shape_def compute_returns_def
      returns_slot_def numeral_3_eq_3 scalar_def times_dual_def plus_dual_def minus_dual_def
      one_dual_def zero_dual_def)

text \<open>
  The returns over \<^verbatim>\<open>float32\<close>: the loop leaves the slots above its counter alone, each
  slot below is computed from the slot above it, and the shapes of the constructor are
  kept. A finite product is masked to zero by a done flag of 1, and zero added to a
  \<^verbatim>\<open>float32\<close> number is that number.
\<close>

lemma loop_f32_length [simp]:
  "length (compute_returns_loop_f32 k g rews dns rets) = length rets"
  by (induction k arbitrary: rets) simp_all

lemma loop_f32_above:
  "k \<le> j \<Longrightarrow> compute_returns_loop_f32 k g rews dns rets ! j = rets ! j"
  by (induction k arbitrary: rets) simp_all

lemma loop_f32_rec:
  assumes "t < k" "k < length rets"
  shows "compute_returns_loop_f32 k g rews dns rets ! t =
         returns_slot_f32 g (compute_returns_loop_f32 k g rews dns rets ! (t + 1)) (dns ! (t + 1))
           (rews ! t)"
  using assms
proof (induction k arbitrary: rets)
  case 0
  then show ?case by simp
next
  case (Suc k)
  let ?rets' = "rets[k := returns_slot_f32 g (rets ! (k + 1)) (dns ! (k + 1)) (rews ! k)]"
  show ?case
  proof (cases "t < k")
    case True
    then show ?thesis using Suc.IH[of ?rets'] Suc.prems by simp
  next
    case False
    then have t: "t = k" using Suc.prems by simp
    show ?thesis using Suc.prems by (simp add: t loop_f32_above)
  qed
qed

lemma compute_returns_f32_length [simp]:
  "length (compute_returns_f32 g rews dns rets vals) = length rets"
  by (simp add: compute_returns_f32_def)

lemma compute_returns_f32_last:
  assumes "length rews = T" "length rets = T + 1"
  shows "compute_returns_f32 g rews dns rets vals ! T = last vals"
  using assms by (simp add: compute_returns_f32_def loop_f32_above)

lemma compute_returns_f32_rec:
  assumes "length rews = T" "length rets = T + 1" "t < T"
  shows "compute_returns_f32 g rews dns rets vals ! t =
         returns_slot_f32 g (compute_returns_f32 g rews dns rets vals ! (t + 1)) (dns ! (t + 1))
           (rews ! t)"
  using assms loop_f32_rec[of t T "rets[length rets - 1 := last vals]" g rews dns]
  by (simp add: compute_returns_f32_def)

lemma returns_slot_f32_length:
  "length a = n \<Longrightarrow> length d = n \<Longrightarrow> length r = n \<Longrightarrow> length (returns_slot_f32 g a d r) = n"
  by (simp add: returns_slot_f32_def)

lemma returns_slot_f32_nth:
  "e < length a \<Longrightarrow> e < length d \<Longrightarrow> e < length r \<Longrightarrow>
   returns_slot_f32 g a d r ! e = a ! e * g * (1 - d ! e) + r ! e"
  by (simp add: returns_slot_f32_def)

lemma compute_returns_f32_shape:
  assumes "shape T N rews" "shape (T + 1) N dns" "shape (T + 1) N rets" "shape (T + 1) N vals"
  shows "shape (T + 1) N (compute_returns_f32 g rews dns rets vals)"
proof (rule shapeI)
  note len = shape_length[OF assms(1)] shape_length[OF assms(3)]
  let ?R = "compute_returns_f32 g rews dns rets vals"
  show "length ?R = T + 1" using len by simp
  have down: "i \<le> T \<Longrightarrow> length (?R ! (T - i)) = N" for i
  proof (induction i)
    case 0
    have "vals \<noteq> []" using shape_length[OF assms(4)] by auto
    then have "last vals = vals ! T" using shape_length[OF assms(4)] by (simp add: last_conv_nth)
    then show ?case using compute_returns_f32_last[OF len] shape_nth[OF assms(4), of T] by simp
  next
    case (Suc i)
    then have lt: "T - Suc i < T" and eq: "T - Suc i + 1 = T - i" by simp_all
    show ?case
      using compute_returns_f32_rec[OF len lt, of g dns vals] Suc eq
        shape_nth[OF assms(2), of "T - i"] shape_nth[OF assms(1), of "T - Suc i"]
      by (simp add: returns_slot_f32_length)
  qed
  show "length (?R ! t) = N" if "t < T + 1" for t
    using down[of "T - t"] that by simp
qed

lemma compute_returns_f32_entry:
  assumes "shape T N rews" "shape (T + 1) N dns" "shape (T + 1) N rets" "shape (T + 1) N vals"
    "t < T" "e < N"
  shows "compute_returns_f32 g rews dns rets vals ! t ! e =
         compute_returns_f32 g rews dns rets vals ! (t + 1) ! e * g * (1 - dns ! (t + 1) ! e)
           + rews ! t ! e"
proof -
  note len = shape_length[OF assms(1)] shape_length[OF assms(3)]
  have "length (compute_returns_f32 g rews dns rets vals ! (t + 1)) = N"
    using shape_nth[OF compute_returns_f32_shape[OF assms(1-4)], of "t + 1"] assms(5) by simp
  moreover have "length (dns ! (t + 1)) = N" using shape_nth[OF assms(2), of "t + 1"] assms(5) by simp
  moreover have "length (rews ! t) = N" using shape_nth[OF assms(1) assms(5)] .
  ultimately show ?thesis
    using compute_returns_f32_rec[OF len assms(5), of g dns vals] assms(6)
    by (simp add: returns_slot_f32_nth)
qed

lemma f32_masked:
  assumes "isfinite p"
  shows "p * (1 - 1) = (0::f32)"
proof -
  obtain x where p: "p = Finite x" using assms by (cases p) simp_all
  have "(1::f32) - 1 = Finite 0"
    by (simp add: minus_f32_def one_f32_def overflow_def)
  then show ?thesis by (simp add: p times_f32_def zero_f32_def overflow_def)
qed

lemma f32_zero_add:
  assumes "is_f32 r"
  shows "0 + r = r"
proof (cases r)
  case (Finite z)
  then have "\<bar>z\<bar> \<le> 2 ^ 128 - 2 ^ 104" using assms by (simp add: f32_max_def)
  moreover have "(2::real) ^ 104 = 2 * 2 ^ 103" by simp
  moreover have "(0::real) < 2 ^ 103" by simp
  ultimately have "\<not> 2 ^ 128 - 2 ^ 103 \<le> z \<and> \<not> z \<le> - (2 ^ 128 - 2 ^ 103)" by linarith
  then show ?thesis by (simp add: Finite plus_f32_def zero_f32_def overflow_def)
qed (simp_all add: plus_f32_def zero_f32_def)

text \<open>
  Claim C8, as amended. Take two runs of \<^verbatim>\<open>compute_returns\<close> on \<^verbatim>\<open>float32\<close> tensors with the
  same discount, and an environment whose done flag at slot \<open>t + 1\<close> is 1 in both, and let
  the product \<open>returns[t + 1] * gamma\<close> be finite in both: neither an infinity nor NaN,
  which is what an overflow of an earlier sum or of the product itself leaves. Then
  \<open>returns[t]\<close> is \<open>rewards[t]\<close> for a reward that is a \<^verbatim>\<open>float32\<close> number, and if the
  rewards up to slot \<open>t\<close> and the done flags of slots 1 to \<open>t\<close> agree, the returns of slots
  0 to \<open>t\<close> agree, whatever the values and the rewards and done flags beyond the boundary
  are. \<open>returns[t + 1]\<close> after the call is the value that the loop read when it computed
  slot \<open>t\<close>, since the loop writes slot \<open>t + 1\<close> before slot \<open>t\<close> and never again.
\<close>

theorem done_masks_bootstrap:
  assumes "shape T N rews" and "shape (T + 1) N dns"
    and "shape (T + 1) N rets" and "shape (T + 1) N vals"
    and "shape T N rews'" and "shape (T + 1) N dns'"
    and "shape (T + 1) N rets'" and "shape (T + 1) N vals'"
    and "t < T" and "e < N"
    and "dns ! (t + 1) ! e = 1" and "dns' ! (t + 1) ! e = 1"
    and "isfinite (compute_returns_f32 g rews dns rets vals ! (t + 1) ! e * g)"
    and "isfinite (compute_returns_f32 g rews' dns' rets' vals' ! (t + 1) ! e * g)"
    and "\<forall>j\<le>t. rews ! j ! e = rews' ! j ! e"
    and "\<forall>j. 1 \<le> j \<and> j \<le> t \<longrightarrow> dns ! j ! e = dns' ! j ! e"
  shows "(is_f32 (rews ! t ! e) \<longrightarrow> compute_returns_f32 g rews dns rets vals ! t ! e = rews ! t ! e) \<and>
         (\<forall>j\<le>t. compute_returns_f32 g rews dns rets vals ! j ! e =
                  compute_returns_f32 g rews' dns' rets' vals' ! j ! e)"
proof -
  let ?r = "compute_returns_f32 g rews dns rets vals"
  let ?r' = "compute_returns_f32 g rews' dns' rets' vals'"
  have a: "?r ! t ! e = 0 + rews ! t ! e"
    using compute_returns_f32_entry[OF assms(1-4) assms(9,10), of g] assms(11)
      f32_masked[OF assms(13)] by simp
  have a': "?r' ! t ! e = 0 + rews' ! t ! e"
    using compute_returns_f32_entry[OF assms(5-8) assms(9,10), of g] assms(12)
      f32_masked[OF assms(14)] by simp
  have down: "i \<le> t \<Longrightarrow> ?r ! (t - i) ! e = ?r' ! (t - i) ! e" for i
  proof (induction i)
    case 0
    then show ?case using a a' assms(15) by simp
  next
    case (Suc i)
    then have lt: "t - Suc i < T" and eq: "t - Suc i + 1 = t - i" and le: "t - Suc i \<le> t"
      and d: "1 \<le> t - i \<and> t - i \<le> t"
      using assms(9) by simp_all
    have "?r ! (t - Suc i) ! e =
        ?r ! (t - i) ! e * g * (1 - dns ! (t - i) ! e) + rews ! (t - Suc i) ! e"
      using compute_returns_f32_entry[OF assms(1-4) lt assms(10), of g] by (simp only: eq)
    moreover have "?r' ! (t - Suc i) ! e =
        ?r' ! (t - i) ! e * g * (1 - dns' ! (t - i) ! e) + rews' ! (t - Suc i) ! e"
      using compute_returns_f32_entry[OF assms(5-8) lt assms(10), of g] by (simp only: eq)
    moreover have "?r ! (t - i) ! e = ?r' ! (t - i) ! e" using Suc by simp
    moreover have "dns ! (t - i) ! e = dns' ! (t - i) ! e" using assms(16) d by blast
    moreover have "rews ! (t - Suc i) ! e = rews' ! (t - Suc i) ! e" using assms(15) le by blast
    ultimately show ?case by simp
  qed
  have "?r ! j ! e = ?r' ! j ! e" if "j \<le> t" for j
    using down[of "t - j"] that by simp
  moreover have "?r ! t ! e = rews ! t ! e" if "is_f32 (rews ! t ! e)"
    using a f32_zero_add[OF that] by simp
  ultimately show ?thesis by blast
qed

theorem done_masks_bootstrap_witness:
  "dones_ex ! (1 + 1) ! 0 = 1 \<and> is_f32 (rewards_ex ! 1 ! 0) \<and>
   isfinite (compute_returns_f32 (Finite (1 / 2)) rewards_ex dones_ex returns_zero_ex values_ex ! (1 + 1) ! 0
     * Finite (1 / 2)) \<and>
   isfinite (compute_returns_f32 (Finite (1 / 2)) rewards_ex' dones_ex returns_zero_ex values_ex' ! (1 + 1) ! 0
     * Finite (1 / 2)) \<and>
   compute_returns_f32 (Finite (1 / 2)) rewards_ex dones_ex returns_zero_ex values_ex ! 1 ! 0 =
     rewards_ex ! 1 ! 0 \<and>
   compute_returns_f32 (Finite (1 / 2)) rewards_ex dones_ex returns_zero_ex values_ex ! 0 ! 0 =
     compute_returns_f32 (Finite (1 / 2)) rewards_ex' dones_ex returns_zero_ex values_ex' ! 0 ! 0 \<and>
   compute_returns_f32 (Finite (1 / 2)) rewards_ex dones_ex returns_zero_ex values_ex ! 2 ! 0 = Finite (7 / 2) \<and>
   compute_returns_f32 (Finite (1 / 2)) rewards_ex' dones_ex returns_zero_ex values_ex' ! 2 ! 0 = Finite 90"
proof -
  have sh: "shape 3 1 rewards_ex" "shape (3 + 1) 1 dones_ex" "shape (3 + 1) 1 returns_zero_ex"
    "shape (3 + 1) 1 values_ex" "shape 3 1 rewards_ex'" "shape (3 + 1) 1 dones_ex"
    "shape (3 + 1) 1 returns_zero_ex" "shape (3 + 1) 1 values_ex'"
    by (simp_all add: rewards_ex_def rewards_ex'_def dones_ex_def returns_zero_ex_def values_ex_def
        values_ex'_def shape_def)
  have d: "dones_ex ! (1 + 1) ! 0 = 1" by (simp add: dones_ex_def)
  have f: "isfinite (compute_returns_f32 (Finite (1 / 2)) rewards_ex dones_ex returns_zero_ex values_ex
              ! (1 + 1) ! 0 * Finite (1 / 2))"
    by code_simp
  have f': "isfinite (compute_returns_f32 (Finite (1 / 2)) rewards_ex' dones_ex returns_zero_ex values_ex'
              ! (1 + 1) ! 0 * Finite (1 / 2))"
    by code_simp
  have r: "\<forall>j\<le>1. rewards_ex ! j ! 0 = rewards_ex' ! j ! 0"
    by (simp add: rewards_ex_def rewards_ex'_def le_Suc_eq)
  have dd: "\<forall>j. 1 \<le> j \<and> j \<le> 1 \<longrightarrow> dones_ex ! j ! 0 = dones_ex ! j ! 0"
    by simp
  have v: "is_f32 (rewards_ex ! 1 ! 0)" by code_simp
  note th = done_masks_bootstrap[OF sh _ _ d d f f' r dd]
  have two: "compute_returns_f32 (Finite (1 / 2)) rewards_ex dones_ex returns_zero_ex values_ex ! 2 ! 0 =
      Finite (7 / 2)"
    by code_simp
  have two': "compute_returns_f32 (Finite (1 / 2)) rewards_ex' dones_ex returns_zero_ex values_ex' ! 2 ! 0 =
      Finite 90"
    by code_simp
  show ?thesis using th d f f' v two two' by simp
qed

text \<open>
  Claim C8 as stated fails where the return beyond the boundary overflows. One
  environment, three time slots, discount 1, rewards 1, 1 and \<open>2^127\<close>, the episode ending
  in the second slot, and two runs that differ in the bootstrap value only: \<open>2^127\<close> and 0,
  all of them \<^verbatim>\<open>float32\<close> numbers. With the bootstrap value \<open>2^127\<close> the return of the last
  slot is \<open>2^127 + 2^127\<close>, which is infinite in \<^verbatim>\<open>float32\<close>; the done flag multiplies it by
  zero, which is NaN, and the returns of the two slots before the boundary are NaN. With
  the bootstrap value 0 they are 1 and 2.
\<close>

theorem done_masks_bootstrap_counterexample:
  "dones_ex ! (1 + 1) ! 0 = 1 \<and>
   compute_returns_f32 1 rewards_big_ex dones_ex returns_zero_ex [[0], [0], [0], [Finite (2 ^ 127)]] =
     [[NaN], [NaN], [PosInf], [Finite (2 ^ 127)]] \<and>
   compute_returns_f32 1 rewards_big_ex dones_ex returns_zero_ex [[0], [0], [0], [0]] =
     [[Finite 2], [Finite 1], [Finite (2 ^ 127)], [Finite 0]] \<and>
   compute_returns_f32 1 rewards_big_ex dones_ex returns_zero_ex [[0], [0], [0], [Finite (2 ^ 127)]] ! 1 ! 0 \<noteq>
     compute_returns_f32 1 rewards_big_ex dones_ex returns_zero_ex [[0], [0], [0], [0]] ! 1 ! 0 \<and>
   compute_returns_f32 1 rewards_big_ex dones_ex returns_zero_ex [[0], [0], [0], [Finite (2 ^ 127)]] ! 0 ! 0 \<noteq>
     compute_returns_f32 1 rewards_big_ex dones_ex returns_zero_ex [[0], [0], [0], [0]] ! 0 ! 0 \<and>
   list_all (list_all is_f32) rewards_big_ex \<and> is_f32 (Finite (2 ^ 127))"
proof -
  have a: "compute_returns_f32 1 rewards_big_ex dones_ex returns_zero_ex [[0], [0], [0], [Finite (2 ^ 127)]] =
     [[NaN], [NaN], [PosInf], [Finite (2 ^ 127)]]"
    by code_simp
  have b: "compute_returns_f32 1 rewards_big_ex dones_ex returns_zero_ex [[0], [0], [0], [0]] =
     [[Finite 2], [Finite 1], [Finite (2 ^ 127)], [Finite 0]]"
    by code_simp
  have c: "list_all (list_all is_f32) rewards_big_ex \<and> is_f32 (Finite (2 ^ 127))"
    by code_simp
  have d: "dones_ex ! (1 + 1) ! 0 = 1" by (simp add: dones_ex_def)
  show ?thesis unfolding a b using c d by simp
qed

subsection \<open>The rollout cycle\<close>

lemma copy_row_ok:
  assumes "shape rows cols tensor" "i < rows" "length src = cols"
  shows "copy_row tensor i src = Inr (tensor[i := src])" "shape rows cols (tensor[i := src])"
proof -
  have l: "length tensor = rows" "length (tensor ! i) = cols"
    using assms by (auto simp: shape_def list_all_length)
  show "copy_row tensor i src = Inr (tensor[i := src])" using l assms by (simp add: copy_row_def)
  show "shape rows cols (tensor[i := src])"
    using assms by (auto simp: shape_def list_all_length nth_list_update)
qed

lemma losses_ok:
  assumes "shape (rollout s + 1) (num_envs s) (observations s)"
    "shape (rollout s) (num_envs s) (rewards s)"
    "shape (rollout s + 1) (num_envs s) (actions s)"
    "net_ok ((rollout s + 1) * num_envs s) (policy s)"
  shows "\<exists>vals a c e l. losses s = Inr (compute_returns s vals, a, c, e, l)"
proof -
  obtain dist vals where f: "forward (policy s) (concat (observations s)) = (dist, vals)"
    by (cases "forward (policy s) (concat (observations s))") auto
  have lo: "length (concat (observations s)) = (rollout s + 1) * num_envs s"
    by (rule length_concat_shape[OF assms(1)])
  have la: "length (concat (actions s)) = (rollout s + 1) * num_envs s"
    by (rule length_concat_shape[OF assms(3)])
  have lr: "length (rewards s) = rollout s" using assms(2) by (simp add: shape_def)
  from assms(4) lo la f have lv: "length vals = (rollout s + 1) * num_envs s"
    and ll: "length (log_prob dist (concat (actions s))) = (rollout s + 1) * num_envs s"
    unfolding net_ok_def by (metis fst_conv snd_conv)+
  show ?thesis
    using lv ll lr by (auto simp: losses_def f view_def and_then_def Let_def)
qed

lemma update_ok:
  assumes "shape (rollout s + 1) (num_envs s) (observations s)"
    "shape (rollout s) (num_envs s) (rewards s)"
    "shape (rollout s + 1) (num_envs s) (actions s)"
    "net_ok ((rollout s + 1) * num_envs s) (policy s)"
  shows "\<exists>s'. update s = Inr s' \<and> step s' = step s \<and> updates s' = Suc (updates s) \<and>
           length (logger s' ''actor_loss'') = Suc (length (logger s ''actor_loss'')) \<and>
           length (logger s' ''critic_loss'') = Suc (length (logger s ''critic_loss'')) \<and>
           length (logger s' ''entropy_loss'') = Suc (length (logger s ''entropy_loss'')) \<and>
           frames_done s' = frames_done s \<and> num_envs s' = num_envs s \<and>
           magnitude_logging_fraction s' = magnitude_logging_fraction s \<and> noisy s' = noisy s"
proof -
  from losses_ok[OF assms] obtain vals a c e l
    where "losses s = Inr (compute_returns s vals, a, c, e, l)" by blast
  then show ?thesis
    by (simp add: update_def and_then_def log_append_def compute_returns_other_fields)
qed

lemma bookkeeping_unfold:
  fixes s :: "('o, 'z) a2c_agent_scheme"
  assumes wf: "wf_a2c s" and ok: "input_ok (num_envs s) (state, action, reward, next_state, done)"
  defines "s1 \<equiv> s\<lparr>observations := (observations s)[step s := state, step s + 1 := next_state],
                     rewards := (rewards s)[step s := map scalar reward],
                     actions := (actions s)[step s := action],
                     dones := (dones s)[step s + 1 := map (\<lambda>b. scalar (if b then 1 else 0)) done],
                     step := (step s + 1) mod rollout s\<rparr>"
  shows "rollout_bookkeeping s (state, action, reward, next_state, done) =
           and_then (if step s1 = 0 then update s1 else Inr s1)
             (\<lambda>s2. and_then (py_mod (frames_done s2) (magnitude_logging_fraction s2))
                (\<lambda>m. if m < int (num_envs s2) \<and> noisy s2
                     then Inr (s2\<lparr>logger := log_append ''magnitude'' (magnitude (policy s2)) (logger s2)\<rparr>)
                     else Inr s2))"
    and "shape (rollout s + 1) (num_envs s) (observations s1)"
    and "shape (rollout s) (num_envs s) (rewards s1)"
    and "shape (rollout s + 1) (num_envs s) (actions s1)"
    and "shape (rollout s + 1) (num_envs s) (dones s1)"
    and "shape (rollout s + 1) (num_envs s) (returns s1)"
proof -
  let ?R = "rollout s" and ?N = "num_envs s" and ?i = "step s"
  from wf have sh: "shape (?R + 1) ?N (observations s)" "shape ?R ?N (rewards s)"
    "shape (?R + 1) ?N (actions s)" "shape (?R + 1) ?N (dones s)" "shape (?R + 1) ?N (returns s)"
    and i: "?i < ?R" by (simp_all add: wf_a2c_def)
  from ok have len: "length state = ?N" "length action = ?N" "length (map scalar reward) = ?N"
    "length next_state = ?N" "length (map (\<lambda>b. scalar (if b then 1 else 0)) done) = ?N"
    by simp_all
  have i1: "?i < ?R + 1" "?i + 1 < ?R + 1" using i by simp_all
  note o1 = copy_row_ok[OF sh(1) i1(1) len(1)]
  note o2 = copy_row_ok[OF o1(2) i1(2) len(4)]
  note a1 = copy_row_ok[OF sh(3) i1(1) len(2)]
  note r1 = copy_row_ok[OF sh(2) i len(3)]
  note d1 = copy_row_ok[OF sh(4) i1(2) len(5)]
  have m: "py_mod (int ?i + 1) (int ?R) = Inr (int ((?i + 1) mod ?R))"
    using i by (simp add: py_mod_def zmod_int add.commute)
  show "shape (?R + 1) ?N (observations s1)" using o2(2) by (simp add: s1_def)
  show "shape ?R ?N (rewards s1)" using r1(2) by (simp add: s1_def)
  show "shape (?R + 1) ?N (actions s1)" using a1(2) by (simp add: s1_def)
  show "shape (?R + 1) ?N (dones s1)" using d1(2) by (simp add: s1_def)
  show "shape (?R + 1) ?N (returns s1)" using sh(5) by (simp add: s1_def)
  show "rollout_bookkeeping s (state, action, reward, next_state, done) =
           and_then (if step s1 = 0 then update s1 else Inr s1)
             (\<lambda>s2. and_then (py_mod (frames_done s2) (magnitude_logging_fraction s2))
                (\<lambda>m. if m < int (num_envs s2) \<and> noisy s2
                     then Inr (s2\<lparr>logger := log_append ''magnitude'' (magnitude (policy s2)) (logger s2)\<rparr>)
                     else Inr s2))"
    using o1(1) o2(1) a1(1) r1(1) d1(1) m
    by (simp add: and_then_def s1_def Let_def)
qed

declare rollout_bookkeeping.simps [simp del]

lemma see_collect:
  fixes s :: "('o, 'z) a2c_agent_scheme"
  assumes wf: "wf_a2c s" and ok: "input_ok (num_envs s) x"
    and mlf: "magnitude_logging_fraction s \<noteq> 0" and st: "step s + 1 < rollout s"
  shows "\<exists>s'. A2C_see Agent_see s x = Inr s' \<and> wf_a2c s' \<and> step s' = step s + 1 \<and>
           updates s' = updates s \<and>
           logger s' ''actor_loss'' = logger s ''actor_loss'' \<and>
           logger s' ''critic_loss'' = logger s ''critic_loss'' \<and>
           logger s' ''entropy_loss'' = logger s ''entropy_loss'' \<and>
           rollout s' = rollout s \<and> num_envs s' = num_envs s \<and>
           magnitude_logging_fraction s' = magnitude_logging_fraction s \<and>
           policy s' = policy s \<and> frames_done s' = frames_done s + int (num_envs s)"
proof -
  obtain state action reward next_state d where x: "x = (state, action, reward, next_state, d)"
    by (cases x) auto
  let ?s0 = "s\<lparr>frames_done := frames_done s + int (num_envs s)\<rparr>"
  have wf0: "wf_a2c ?s0" using wf by (simp add: wf_a2c_frames)
  have ok0: "input_ok (num_envs ?s0) (state, action, reward, next_state, d)" using ok x by simp
  note bk = bookkeeping_unfold[OF wf0 ok0]
  let ?s1 = "?s0\<lparr>observations := (observations ?s0)[step ?s0 := state, step ?s0 + 1 := next_state],
                     rewards := (rewards ?s0)[step ?s0 := map scalar reward],
                     actions := (actions ?s0)[step ?s0 := action],
                     dones := (dones ?s0)[step ?s0 + 1 := map (\<lambda>b. scalar (if b then 1 else 0)) d],
                     step := (step ?s0 + 1) mod rollout ?s0\<rparr>"
  have st1: "step ?s1 = step s + 1" using st by simp
  have wf1: "wf_a2c ?s1" using bk(2-6) st by (simp add: wf_a2c_def)
  have "A2C_see Agent_see s x = rollout_bookkeeping ?s0 (state, action, reward, next_state, d)"
    by (simp add: A2C_see_def Agent_see_def and_then_def x)
  also have "\<dots> = (if frames_done ?s1 mod magnitude_logging_fraction ?s1 < int (num_envs ?s1) \<and> noisy ?s1
                     then Inr (?s1\<lparr>logger := log_append ''magnitude'' (magnitude (policy ?s1)) (logger ?s1)\<rparr>)
                     else Inr ?s1)"
    unfolding bk(1) using st mlf by (simp add: and_then_def py_mod_def)
  finally have see: "A2C_see Agent_see s x =
      (if frames_done ?s1 mod magnitude_logging_fraction ?s1 < int (num_envs ?s1) \<and> noisy ?s1
       then Inr (?s1\<lparr>logger := log_append ''magnitude'' (magnitude (policy ?s1)) (logger ?s1)\<rparr>)
       else Inr ?s1)" .
  show ?thesis
  proof (cases "frames_done ?s1 mod magnitude_logging_fraction ?s1 < int (num_envs ?s1) \<and> noisy ?s1")
    case True
    let ?s2 = "?s1\<lparr>logger := log_append ''magnitude'' (magnitude (policy ?s1)) (logger ?s1)\<rparr>"
    have "A2C_see Agent_see s x = Inr ?s2" using see True by presburger
    moreover have "wf_a2c ?s2" using wf1 by (simp add: wf_a2c_def)
    ultimately show ?thesis using st by (simp add: log_append_def)
  next
    case False
    have "A2C_see Agent_see s x = Inr ?s1" using see False by presburger
    then show ?thesis using wf1 st by simp
  qed
qed

lemma see_update:
  fixes s :: "('o, 'z) a2c_agent_scheme"
  assumes wf: "wf_a2c s" and ok: "input_ok (num_envs s) x"
    and mlf: "magnitude_logging_fraction s \<noteq> 0" and st: "step s + 1 = rollout s"
    and net: "net_ok ((rollout s + 1) * num_envs s) (policy s)"
  shows "\<exists>s'. A2C_see Agent_see s x = Inr s' \<and> step s' = 0 \<and> updates s' = Suc (updates s) \<and>
           length (logger s' ''actor_loss'') = Suc (length (logger s ''actor_loss'')) \<and>
           length (logger s' ''critic_loss'') = Suc (length (logger s ''critic_loss'')) \<and>
           length (logger s' ''entropy_loss'') = Suc (length (logger s ''entropy_loss''))"
proof -
  obtain state action reward next_state d where x: "x = (state, action, reward, next_state, d)"
    by (cases x) auto
  let ?s0 = "s\<lparr>frames_done := frames_done s + int (num_envs s)\<rparr>"
  have wf0: "wf_a2c ?s0" using wf by (simp add: wf_a2c_frames)
  have ok0: "input_ok (num_envs ?s0) (state, action, reward, next_state, d)" using ok x by simp
  note bk = bookkeeping_unfold[OF wf0 ok0]
  let ?s1 = "?s0\<lparr>observations := (observations ?s0)[step ?s0 := state, step ?s0 + 1 := next_state],
                     rewards := (rewards ?s0)[step ?s0 := map scalar reward],
                     actions := (actions ?s0)[step ?s0 := action],
                     dones := (dones ?s0)[step ?s0 + 1 := map (\<lambda>b. scalar (if b then 1 else 0)) d],
                     step := (step ?s0 + 1) mod rollout ?s0\<rparr>"
  have st1: "step ?s1 = 0" using st by simp
  have sh: "shape (rollout ?s1 + 1) (num_envs ?s1) (observations ?s1)"
    "shape (rollout ?s1) (num_envs ?s1) (rewards ?s1)"
    "shape (rollout ?s1 + 1) (num_envs ?s1) (actions ?s1)"
    using bk(2-4) by simp_all
  have net1: "net_ok ((rollout ?s1 + 1) * num_envs ?s1) (policy ?s1)" using net by simp
  from update_ok[OF sh net1] obtain s2 where s2: "update ?s1 = Inr s2" "step s2 = 0"
    "updates s2 = Suc (updates s)"
    "length (logger s2 ''actor_loss'') = Suc (length (logger s ''actor_loss''))"
    "length (logger s2 ''critic_loss'') = Suc (length (logger s ''critic_loss''))"
    "length (logger s2 ''entropy_loss'') = Suc (length (logger s ''entropy_loss''))"
    "magnitude_logging_fraction s2 = magnitude_logging_fraction s"
    using st1 by auto
  have "A2C_see Agent_see s x = rollout_bookkeeping ?s0 (state, action, reward, next_state, d)"
    by (simp add: A2C_see_def Agent_see_def and_then_def x)
  also have "\<dots> = (if frames_done s2 mod magnitude_logging_fraction s2 < int (num_envs s2) \<and> noisy s2
                     then Inr (s2\<lparr>logger := log_append ''magnitude'' (magnitude (policy s2)) (logger s2)\<rparr>)
                     else Inr s2)"
    unfolding bk(1) using st1 s2(1,7) mlf by (simp add: and_then_def py_mod_def)
  finally have see: "A2C_see Agent_see s x =
      (if frames_done s2 mod magnitude_logging_fraction s2 < int (num_envs s2) \<and> noisy s2
       then Inr (s2\<lparr>logger := log_append ''magnitude'' (magnitude (policy s2)) (logger s2)\<rparr>)
       else Inr s2)" .
  show ?thesis
  proof (cases "frames_done s2 mod magnitude_logging_fraction s2 < int (num_envs s2) \<and> noisy s2")
    case True
    have "A2C_see Agent_see s x =
        Inr (s2\<lparr>logger := log_append ''magnitude'' (magnitude (policy s2)) (logger s2)\<rparr>)"
      using see True by presburger
    then show ?thesis using s2 by (simp add: log_append_def)
  next
    case False
    have "A2C_see Agent_see s x = Inr s2" using see False by presburger
    then show ?thesis using s2 by simp
  qed
qed

lemma A2C_run_snoc:
  "A2C_run super_see s (xs @ [x]) = and_then (A2C_run super_see s xs) (\<lambda>s1. A2C_see super_see s1 x)"
proof (induction xs arbitrary: s)
  case Nil
  show ?case by (cases "A2C_see super_see s x") (simp_all add: and_then_def)
next
  case (Cons a xs)
  show ?case by (cases "A2C_see super_see s a") (simp_all add: and_then_def Cons.IH)
qed

lemma run_collect:
  fixes s :: "('o, 'z) a2c_agent_scheme"
  assumes wf: "wf_a2c s" and st: "step s = 0"
    and mlf: "magnitude_logging_fraction s \<noteq> 0"
    and oks: "list_all (input_ok (num_envs s)) xs" and n: "n < rollout s" "n \<le> length xs"
  shows "\<exists>sn. A2C_run Agent_see s (take n xs) = Inr sn \<and> wf_a2c sn \<and> step sn = n \<and>
           updates sn = updates s \<and>
           logger sn ''actor_loss'' = logger s ''actor_loss'' \<and>
           logger sn ''critic_loss'' = logger s ''critic_loss'' \<and>
           logger sn ''entropy_loss'' = logger s ''entropy_loss'' \<and>
           rollout sn = rollout s \<and> num_envs sn = num_envs s \<and>
           magnitude_logging_fraction sn = magnitude_logging_fraction s \<and>
           policy sn = policy s \<and> frames_done sn = frames_done s + int n * int (num_envs s)"
  using n
proof (induction n)
  case 0
  show ?case using wf st by simp
next
  case (Suc n)
  then obtain sn where sn: "A2C_run Agent_see s (take n xs) = Inr sn" "wf_a2c sn" "step sn = n"
    "updates sn = updates s"
    "logger sn ''actor_loss'' = logger s ''actor_loss''"
    "logger sn ''critic_loss'' = logger s ''critic_loss''"
    "logger sn ''entropy_loss'' = logger s ''entropy_loss''"
    "rollout sn = rollout s" "num_envs sn = num_envs s"
    "magnitude_logging_fraction sn = magnitude_logging_fraction s"
    "policy sn = policy s" "frames_done sn = frames_done s + int n * int (num_envs s)"
    by auto
  have lt: "n < length xs" using Suc.prems by simp
  have ok: "input_ok (num_envs sn) (xs ! n)" using oks lt sn(9) by (simp add: list_all_length)
  have m: "magnitude_logging_fraction sn \<noteq> 0" using mlf sn(10) by simp
  have s1: "step sn + 1 < rollout sn" using Suc.prems sn(3,8) by simp
  from see_collect[OF sn(2) ok m s1] obtain s' where s': "A2C_see Agent_see sn (xs ! n) = Inr s'"
    "wf_a2c s'" "step s' = step sn + 1" "updates s' = updates sn"
    "logger s' ''actor_loss'' = logger sn ''actor_loss''"
    "logger s' ''critic_loss'' = logger sn ''critic_loss''"
    "logger s' ''entropy_loss'' = logger sn ''entropy_loss''"
    "rollout s' = rollout sn" "num_envs s' = num_envs sn"
    "magnitude_logging_fraction s' = magnitude_logging_fraction sn"
    "policy s' = policy sn" "frames_done s' = frames_done sn + int (num_envs sn)"
    by blast
  have "take (Suc n) xs = take n xs @ [xs ! n]" using lt by (simp add: take_Suc_conv_app_nth)
  then have "A2C_run Agent_see s (take (Suc n) xs) = Inr s'"
    using sn(1) s'(1) by (simp add: A2C_run_snoc and_then_def)
  moreover have "frames_done s' = frames_done s + int (Suc n) * int (num_envs s)"
    using s'(12) sn(9,12) by (simp add: algebra_simps)
  ultimately show ?case using s' sn by simp
qed

text \<open>
  Claim C4. Take an agent over the base agent whose rollout tensors have the shapes of the
  constructor, with \<open>step = 0\<close>, a logging interval that is not 0 and a network that
  returns one value and one log-probability per observation, and let \<open>see\<close> be called
  \<open>rollout\<close> times with one observation, action, reward and done flag per environment.
  Then all calls return, \<open>step\<close> is 0 again, \<^verbatim>\<open>update\<close> has run exactly once and each of
  the logger channels \<^verbatim>\<open>actor_loss\<close>, \<^verbatim>\<open>critic_loss\<close> and \<^verbatim>\<open>entropy_loss\<close> has one more
  entry. After \<open>n < rollout\<close> of the calls \<open>step\<close> is \<open>n\<close> and no update has run: the update
  runs in the call in which \<open>step\<close> wraps to 0.
\<close>

theorem rollout_cycle:
  fixes s :: "('o, 'z) a2c_agent_scheme"
  assumes "wf_a2c s" and "step s = 0" and "magnitude_logging_fraction s \<noteq> 0"
    and "net_ok ((rollout s + 1) * num_envs s) (policy s)"
    and "length xs = rollout s" and "list_all (input_ok (num_envs s)) xs"
  shows "(\<exists>s'. A2C_run Agent_see s xs = Inr s' \<and> step s' = 0 \<and> updates s' = updates s + 1 \<and>
            length (logger s' ''actor_loss'') = length (logger s ''actor_loss'') + 1 \<and>
            length (logger s' ''critic_loss'') = length (logger s ''critic_loss'') + 1 \<and>
            length (logger s' ''entropy_loss'') = length (logger s ''entropy_loss'') + 1) \<and>
         (\<forall>n<rollout s. \<exists>sn. A2C_run Agent_see s (take n xs) = Inr sn \<and> step sn = n \<and>
            updates sn = updates s \<and>
            logger sn ''actor_loss'' = logger s ''actor_loss'' \<and>
            logger sn ''critic_loss'' = logger s ''critic_loss'' \<and>
            logger sn ''entropy_loss'' = logger s ''entropy_loss'')"
proof -
  have R: "0 < rollout s" using assms(1) by (simp add: wf_a2c_def)
  have pre: "\<exists>sn. A2C_run Agent_see s (take n xs) = Inr sn \<and> wf_a2c sn \<and> step sn = n \<and>
           updates sn = updates s \<and>
           logger sn ''actor_loss'' = logger s ''actor_loss'' \<and>
           logger sn ''critic_loss'' = logger s ''critic_loss'' \<and>
           logger sn ''entropy_loss'' = logger s ''entropy_loss'' \<and>
           rollout sn = rollout s \<and> num_envs sn = num_envs s \<and>
           magnitude_logging_fraction sn = magnitude_logging_fraction s \<and>
           policy sn = policy s \<and> frames_done sn = frames_done s + int n * int (num_envs s)"
    if "n < rollout s" for n
    using run_collect[OF assms(1,2,3,6) that] that assms(5) by simp
  let ?k = "rollout s - 1"
  have k: "?k < rollout s" using R by simp
  from pre[OF k] obtain sk where sk: "A2C_run Agent_see s (take ?k xs) = Inr sk" "wf_a2c sk"
    "step sk = ?k" "updates sk = updates s"
    "logger sk ''actor_loss'' = logger s ''actor_loss''"
    "logger sk ''critic_loss'' = logger s ''critic_loss''"
    "logger sk ''entropy_loss'' = logger s ''entropy_loss''"
    "rollout sk = rollout s" "num_envs sk = num_envs s"
    "magnitude_logging_fraction sk = magnitude_logging_fraction s" "policy sk = policy s"
    by blast
  have lt: "?k < length xs" using assms(5) R by simp
  have ok: "input_ok (num_envs sk) (xs ! ?k)" using assms(6) lt sk(9) by (simp add: list_all_length)
  have m: "magnitude_logging_fraction sk \<noteq> 0" using assms(3) sk(10) by simp
  have st: "step sk + 1 = rollout sk" using sk(3,8) R by simp
  have net: "net_ok ((rollout sk + 1) * num_envs sk) (policy sk)" using assms(4) sk(8,9,11) by simp
  from see_update[OF sk(2) ok m st net] obtain s' where s': "A2C_see Agent_see sk (xs ! ?k) = Inr s'"
    "step s' = 0" "updates s' = Suc (updates sk)"
    "length (logger s' ''actor_loss'') = Suc (length (logger sk ''actor_loss''))"
    "length (logger s' ''critic_loss'') = Suc (length (logger sk ''critic_loss''))"
    "length (logger s' ''entropy_loss'') = Suc (length (logger sk ''entropy_loss''))"
    by blast
  have "xs = take ?k xs @ [xs ! ?k]"
    using lt assms(5) R by (metis Suc_pred' take_Suc_conv_app_nth take_all order_refl)
  then have "A2C_run Agent_see s xs = and_then (A2C_run Agent_see s (take ?k xs))
      (\<lambda>s1. A2C_see Agent_see s1 (xs ! ?k))"
    using A2C_run_snoc[of Agent_see s "take ?k xs" "xs ! ?k"] by simp
  then have "A2C_run Agent_see s xs = Inr s'" using sk(1) s'(1) by (simp add: and_then_def)
  then have fin: "\<exists>s'. A2C_run Agent_see s xs = Inr s' \<and> step s' = 0 \<and> updates s' = updates s + 1 \<and>
            length (logger s' ''actor_loss'') = length (logger s ''actor_loss'') + 1 \<and>
            length (logger s' ''critic_loss'') = length (logger s ''critic_loss'') + 1 \<and>
            length (logger s' ''entropy_loss'') = length (logger s ''entropy_loss'') + 1"
    using s' sk by simp
  show ?thesis using fin pre by blast
qed

theorem rollout_cycle_witness:
  "wf_a2c a2c_fresh \<and> step a2c_fresh = 0 \<and> magnitude_logging_fraction a2c_fresh \<noteq> 0 \<and>
   net_ok ((rollout a2c_fresh + 1) * num_envs a2c_fresh) (policy a2c_fresh) \<and>
   rollout a2c_fresh = 2 \<and>
   (\<exists>s'. A2C_run Agent_see a2c_fresh
            [([1, 2], [0, 1], [1, 1], [3, 4], [False, False]),
             ([3, 4], [1, 0], [1, 0], [5, 6], [False, True])] = Inr s' \<and>
          step s' = 0 \<and> updates s' = 1 \<and> length (logger s' ''actor_loss'') = 1 \<and>
          length (logger s' ''critic_loss'') = 1 \<and> length (logger s' ''entropy_loss'') = 1)"
proof -
  have wf: "wf_a2c a2c_fresh" unfolding a2c_fresh_def by (rule wf_A2C_init) simp
  have st: "step a2c_fresh = 0" and m: "magnitude_logging_fraction a2c_fresh \<noteq> 0"
    and r: "rollout a2c_fresh = 2" and n: "num_envs a2c_fresh = 2" and u: "updates a2c_fresh = 0"
    and lg: "logger a2c_fresh = (\<lambda>_. [])"
    by (simp_all add: a2c_fresh_def A2C_init_def base2_def)
  have net: "net_ok ((rollout a2c_fresh + 1) * num_envs a2c_fresh) (policy a2c_fresh)"
    using net_ok_net_ex by (simp add: a2c_fresh_def A2C_init_def)
  have len: "length [([1, 2], [0, 1], [1, 1], [3, 4], [False, False]),
             ([3::nat, 4], [1::int, 0], [1::real, 0], [5::nat, 6], [False, True])] = rollout a2c_fresh"
    by (simp add: r)
  have oks: "list_all (input_ok (num_envs a2c_fresh))
      [([1, 2], [0, 1], [1, 1], [3, 4], [False, False]),
       ([3::nat, 4], [1::int, 0], [1::real, 0], [5::nat, 6], [False, True])]"
    by (simp add: n)
  from rollout_cycle[OF wf st m net len oks] u lg wf st m net r show ?thesis by simp
qed

subsection \<open>The losses\<close>

lemma shape_tabulate2: "shape rows cols (tabulate2 rows cols g)"
  by (simp add: shape_def tabulate2_def list_all_iff)

lemma shape_eq_tabulate2:
  assumes "shape rows cols a"
  shows "a = tabulate2 rows cols (\<lambda>t e. a ! t ! e)"
proof (rule nth_equalityI)
  show "length a = length (tabulate2 rows cols (\<lambda>t e. a ! t ! e))"
    using assms by (simp add: shape_def tabulate2_def)
  fix t assume "t < length a"
  then have t: "t < rows" using assms by (simp add: shape_def)
  have "length (a ! t) = cols" using assms t by (auto simp: shape_def list_all_length)
  then have "a ! t = map (\<lambda>e. a ! t ! e) [0..<cols]" by (metis map_nth)
  then show "a ! t = tabulate2 rows cols (\<lambda>t e. a ! t ! e) ! t" using t by (simp add: tabulate2_def)
qed

lemma map_map_tabulate2:
  "map (map f) (tabulate2 rows cols g) = tabulate2 rows cols (\<lambda>t e. f (g t e))"
  by (simp add: tabulate2_def comp_def)

lemma map2_same: "map2 f (map g xs) (map h xs) = map (\<lambda>x. f (g x) (h x)) xs"
  by (induction xs) simp_all

lemma tensor_sub_tabulate2:
  "tensor_sub (tabulate2 rows cols g) (tabulate2 rows cols h) = tabulate2 rows cols (\<lambda>t e. g t e - h t e)"
  by (simp add: tensor_sub_def tabulate2_def map2_same)

lemma tensor_mul_tabulate2:
  "tensor_mul (tabulate2 rows cols g) (tabulate2 rows cols h) = tabulate2 rows cols (\<lambda>t e. g t e * h t e)"
  by (simp add: tensor_mul_def tabulate2_def map2_same)

lemma butlast_tabulate2: "butlast (tabulate2 (Suc rows) cols g) = tabulate2 rows cols g"
  by (simp add: tabulate2_def)

lemma length_concat_tabulate2: "length (concat (tabulate2 rows cols g)) = rows * cols"
  using length_concat_shape[OF shape_tabulate2] .

lemma sum_list_concat_rows:
  fixes xss :: "'a::monoid_add list list"
  shows "sum_list (concat xss) = sum_list (map sum_list xss)"
  by (induction xss) simp_all

lemma sum_list_concat_tabulate2:
  fixes g :: "nat \<Rightarrow> nat \<Rightarrow> 'a::comm_monoid_add"
  shows "sum_list (concat (tabulate2 rows cols g)) = (\<Sum>t<rows. \<Sum>e<cols. g t e)"
proof -
  have "sum_list (concat (tabulate2 rows cols g)) =
      sum_list (map (\<lambda>t. sum_list (map (g t) [0..<cols])) [0..<rows])"
    by (simp add: tabulate2_def sum_list_concat_rows comp_def)
  also have "\<dots> = (\<Sum>t<rows. \<Sum>e<cols. g t e)"
    by (simp add: interv_sum_list_conv_sum_set_nat atLeast0LessThan)
  finally show ?thesis .
qed

lemma tensor_mean_tabulate2:
  "tensor_mean (concat (tabulate2 rows cols g)) =
     scalar (1 / real (rows * cols)) * (\<Sum>t<rows. \<Sum>e<cols. g t e)"
  by (simp only: tensor_mean_def length_concat_tabulate2 sum_list_concat_tabulate2)

lemma view_tabulate2:
  assumes "length xs = rows * cols"
  shows "view rows cols xs = Inr (tabulate2 rows cols (\<lambda>t e. xs ! (t * cols + e)))"
proof -
  have "take cols (drop (t * cols) xs) = map (\<lambda>e. xs ! (t * cols + e)) [0..<cols]" if "t < rows" for t
  proof (rule nth_equalityI)
    have "Suc t * cols \<le> rows * cols" using that by (simp only: Suc_leI mult_le_mono1)
    then have le: "t * cols + cols \<le> length xs" using assms by simp
    then show "length (take cols (drop (t * cols) xs)) = length (map (\<lambda>e. xs ! (t * cols + e)) [0..<cols])"
      by simp
    fix i assume "i < length (take cols (drop (t * cols) xs))"
    then have "i < cols" by simp
    then show "take cols (drop (t * cols) xs) ! i = map (\<lambda>e. xs ! (t * cols + e)) [0..<cols] ! i"
      using le by simp
  qed
  then have "map (\<lambda>t. take cols (drop (t * cols) xs)) [0..<rows] =
      map (\<lambda>t. map (\<lambda>e. xs ! (t * cols + e)) [0..<cols]) [0..<rows]"
    by simp
  then show ?thesis using assms by (simp add: view_def tabulate2_def)
qed

lemma losses_explicit:
  fixes s :: "('o, 'z) a2c_agent_scheme"
  assumes wf: "wf_a2c s"
    and f: "forward (policy s) (concat (observations s)) = (dst, v)"
    and lv: "length v = (rollout s + 1) * num_envs s"
    and ll: "length (log_prob dst (concat (actions s))) = (rollout s + 1) * num_envs s"
  defines "R \<equiv> rollout s" and "N \<equiv> num_envs s"
  defines "lp \<equiv> log_prob dst (concat (actions s))"
  defines "s1 \<equiv> compute_returns s (tabulate2 (R + 1) N (\<lambda>t e. v ! (t * N + e)))"
  defines "adv \<equiv> \<lambda>t e. detach (returns s1 ! t ! e) - v ! (t * N + e)"
  defines "critic \<equiv> scalar (1 / real (R * N)) * (\<Sum>t<R. \<Sum>e<N. (adv t e)\<^sup>2)"
  defines "actor \<equiv> - (scalar (1 / real (R * N)) * (\<Sum>t<R. \<Sum>e<N. detach (adv t e) * lp ! (t * N + e)))"
  defines "ent \<equiv> tensor_mean (butlast (entropy dst))"
  shows "losses s =
           Inr (s1, actor, critic, ent,
                actor + scalar (critic_loss_weight s) * critic - scalar (entropy_loss_weight s) * ent)"
    and "shape (R + 1) N (returns s1)"
proof -
  let ?vals = "tabulate2 (R + 1) N (\<lambda>t e. v ! (t * N + e))"
  let ?lps = "tabulate2 (R + 1) N (\<lambda>t e. lp ! (t * N + e))"
  from wf have sh: "shape R N (rewards s)" "shape (R + 1) N (dones s)" "shape (R + 1) N (returns s)"
    by (simp_all add: wf_a2c_def R_def N_def)
  have lr: "length (rewards s) = R" using sh(1) by (simp add: shape_def)
  have v1: "view (length (rewards s) + 1) (num_envs s) v = Inr ?vals"
    unfolding lr using view_tabulate2[of v "R + 1" N] lv by (simp add: R_def N_def)
  have v2: "view (length (rewards s) + 1) (num_envs s) (log_prob dst (concat (actions s))) = Inr ?lps"
    unfolding lr using view_tabulate2[of lp "R + 1" N] ll by (simp add: R_def N_def lp_def)
  show shr: "shape (R + 1) N (returns s1)"
    unfolding s1_def by (rule compute_returns_shape[OF sh shape_tabulate2])
  have "returns s1 = tabulate2 (Suc R) N (\<lambda>t e. returns s1 ! t ! e)"
    using shape_eq_tabulate2[OF shr] by simp
  then have "butlast (returns s1) = butlast (tabulate2 (Suc R) N (\<lambda>t e. returns s1 ! t ! e))"
    by simp
  then have rets: "butlast (returns s1) = tabulate2 R N (\<lambda>t e. returns s1 ! t ! e)"
    by (simp only: butlast_tabulate2)
  have advs: "tensor_sub (map (map detach) (butlast (returns s1))) (butlast ?vals) = tabulate2 R N adv"
    by (simp add: rets butlast_tabulate2 map_map_tabulate2 tensor_sub_tabulate2 adv_def)
  have crit: "tensor_mean (concat (map (map (\<lambda>a. a\<^sup>2)) (tabulate2 R N adv))) = critic"
    by (simp add: map_map_tabulate2 tensor_mean_tabulate2 critic_def)
  have act: "- tensor_mean (concat (tensor_mul (map (map detach) (tabulate2 R N adv)) (butlast ?lps))) = actor"
    by (simp add: butlast_tabulate2 map_map_tabulate2 tensor_mul_tabulate2 tensor_mean_tabulate2 actor_def)
  show "losses s =
           Inr (s1, actor, critic, ent,
                actor + scalar (critic_loss_weight s) * critic - scalar (entropy_loss_weight s) * ent)"
    unfolding losses_def f Let_def prod.case v1 v2 and_then_def sum.case
    unfolding s1_def[symmetric] advs crit act ent_def ..
qed

text \<open>
  Claim C5. In \<^verbatim>\<open>update\<close>, on non-empty rollout tensors and with a network that returns one
  value and one log-probability per observation, the loss is
  \<open>actor_loss + critic_loss_weight * critic_loss - entropy_loss_weight * dist_entropy\<close>. The
  critic loss is the mean over the first \<open>rollout\<close> time slots and all environments of
  \<open>(returns - values)\<^sup>2\<close>, and its derivative has no term from the returns: they are a fixed
  target. The actor loss is minus the mean over the same entries of \<open>(returns - values)\<close>
  times the log-probability of the stored action, and its derivative is taken through the
  log-probability only: the advantage is detached.
\<close>

theorem a2c_loss:
  fixes s :: "('o, 'z) a2c_agent_scheme"
  assumes "wf_a2c s" and "0 < num_envs s"
    and "net_ok ((rollout s + 1) * num_envs s) (policy s)"
    and "forward (policy s) (concat (observations s)) = (dst, v)"
    and "lp = log_prob dst (concat (actions s))"
    and "R = rollout s" and "N = num_envs s"
  shows "\<exists>s1 actor critic ent loss.
           losses s = Inr (s1, actor, critic, ent, loss) \<and>
           s1 = compute_returns s (tabulate2 (R + 1) N (\<lambda>t e. v ! (t * N + e))) \<and>
           ent = tensor_mean (butlast (entropy dst)) \<and>
           loss = actor + scalar (critic_loss_weight s) * critic - scalar (entropy_loss_weight s) * ent \<and>
           val loss = val actor + critic_loss_weight s * val critic - entropy_loss_weight s * val ent \<and>
           val critic =
             (\<Sum>t<R. \<Sum>e<N. (val (returns s1 ! t ! e) - val (v ! (t * N + e)))\<^sup>2) / real (R * N) \<and>
           der critic =
             (\<Sum>t<R. \<Sum>e<N. 2 * (val (returns s1 ! t ! e) - val (v ! (t * N + e)))
                                * (- der (v ! (t * N + e)))) / real (R * N) \<and>
           val actor =
             - ((\<Sum>t<R. \<Sum>e<N. (val (returns s1 ! t ! e) - val (v ! (t * N + e)))
                                  * val (lp ! (t * N + e))) / real (R * N)) \<and>
           der actor =
             - ((\<Sum>t<R. \<Sum>e<N. (val (returns s1 ! t ! e) - val (v ! (t * N + e)))
                                  * der (lp ! (t * N + e))) / real (R * N)) \<and>
           (\<exists>s'. update s = Inr s' \<and>
              policy s' = optimizer s (grad_norm_max s) loss (policy s) \<and>
              logger s' ''actor_loss'' = logger s ''actor_loss'' @ [val actor] \<and>
              logger s' ''critic_loss'' = logger s ''critic_loss'' @ [val critic] \<and>
              logger s' ''entropy_loss'' = logger s ''entropy_loss'' @ [val ent])"
proof -
  from assms(1) have sh: "shape (rollout s + 1) (num_envs s) (observations s)"
    "shape (rollout s + 1) (num_envs s) (actions s)" by (simp_all add: wf_a2c_def)
  have lo: "length (concat (observations s)) = (rollout s + 1) * num_envs s"
    by (rule length_concat_shape[OF sh(1)])
  have la: "length (concat (actions s)) = (rollout s + 1) * num_envs s"
    by (rule length_concat_shape[OF sh(2)])
  from assms(3) lo la assms(4) have lv: "length v = (rollout s + 1) * num_envs s"
    and ll: "length (log_prob dst (concat (actions s))) = (rollout s + 1) * num_envs s"
    unfolding net_ok_def by (metis fst_conv snd_conv)+
  define s1 where "s1 = compute_returns s (tabulate2 (R + 1) N (\<lambda>t e. v ! (t * N + e)))"
  define adv where "adv = (\<lambda>t e. detach (returns s1 ! t ! e) - v ! (t * N + e))"
  define critic where "critic = scalar (1 / real (R * N)) * (\<Sum>t<R. \<Sum>e<N. (adv t e)\<^sup>2)"
  define actor where
    "actor = - (scalar (1 / real (R * N)) * (\<Sum>t<R. \<Sum>e<N. detach (adv t e) * lp ! (t * N + e)))"
  define ent where "ent = tensor_mean (butlast (entropy dst))"
  define loss where
    "loss = actor + scalar (critic_loss_weight s) * critic - scalar (entropy_loss_weight s) * ent"
  have l: "losses s = Inr (s1, actor, critic, ent, loss)"
    using losses_explicit(1)[OF assms(1,4) lv ll]
    unfolding s1_def adv_def critic_def actor_def ent_def loss_def assms(5,6,7) .
  have va: "val (adv t e) = val (returns s1 ! t ! e) - val (v ! (t * N + e))" for t e
    by (simp add: adv_def)
  have da: "der (adv t e) = - der (v ! (t * N + e))" for t e
    by (simp add: adv_def)
  have vsq: "val ((adv t e)\<^sup>2) = (val (returns s1 ! t ! e) - val (v ! (t * N + e)))\<^sup>2" for t e
    by (simp add: power2_eq_square va)
  have dsq: "der ((adv t e)\<^sup>2) =
      2 * (val (returns s1 ! t ! e) - val (v ! (t * N + e))) * (- der (v ! (t * N + e)))" for t e
    by (simp add: power2_eq_square va da)
  have vc: "val critic =
      (\<Sum>t<R. \<Sum>e<N. (val (returns s1 ! t ! e) - val (v ! (t * N + e)))\<^sup>2) / real (R * N)"
    unfolding critic_def by (simp only: val_simps val_sum vsq) simp
  have dc: "der critic =
      (\<Sum>t<R. \<Sum>e<N. 2 * (val (returns s1 ! t ! e) - val (v ! (t * N + e)))
                         * (- der (v ! (t * N + e)))) / real (R * N)"
    unfolding critic_def by (simp only: der_simps val_simps der_sum dsq) simp
  have vac: "val actor =
      - ((\<Sum>t<R. \<Sum>e<N. (val (returns s1 ! t ! e) - val (v ! (t * N + e)))
                           * val (lp ! (t * N + e))) / real (R * N))"
    unfolding actor_def by (simp add: va)
  have dac: "der actor =
      - ((\<Sum>t<R. \<Sum>e<N. (val (returns s1 ! t ! e) - val (v ! (t * N + e)))
                           * der (lp ! (t * N + e))) / real (R * N))"
    unfolding actor_def by (simp add: va)
  have vl: "val loss = val actor + critic_loss_weight s * val critic - entropy_loss_weight s * val ent"
    by (simp add: loss_def)
  have up: "\<exists>s'. update s = Inr s' \<and>
      policy s' = optimizer s (grad_norm_max s) loss (policy s) \<and>
      logger s' ''actor_loss'' = logger s ''actor_loss'' @ [val actor] \<and>
      logger s' ''critic_loss'' = logger s ''critic_loss'' @ [val critic] \<and>
      logger s' ''entropy_loss'' = logger s ''entropy_loss'' @ [val ent]"
    by (simp add: update_def l and_then_def log_append_def item_def s1_def
        compute_returns_other_fields)
  show ?thesis
    using l s1_def ent_def loss_def vl vc dc vac dac up by blast
qed

theorem a2c_loss_witness:
  "wf_a2c a2c_entropy_ex \<and> 0 < num_envs a2c_entropy_ex \<and>
   net_ok ((rollout a2c_entropy_ex + 1) * num_envs a2c_entropy_ex) (policy a2c_entropy_ex) \<and>
   snd (forward (policy a2c_entropy_ex) (concat (observations a2c_entropy_ex))) =
     [Dual 0 1, Dual 0 1, Dual 6 1, Dual 0 1] \<and>
   map_sum id snd (losses a2c_entropy_ex) =
     Inr (Dual (3 / 2) (- 3), Dual (9 / 2) (- 3), Dual 2 0, Dual 4 (- 6))"
proof -
  have wf: "wf_a2c a2c_entropy_ex"
    by (simp add: a2c_entropy_ex_def A2C_init_def base2_def wf_a2c_def shape_def list_all_iff)
  have n: "0 < num_envs a2c_entropy_ex"
    by (simp add: a2c_entropy_ex_def A2C_init_def base2_def)
  have net: "net_ok ((rollout a2c_entropy_ex + 1) * num_envs a2c_entropy_ex) (policy a2c_entropy_ex)"
    using net_ok_net_ex by (simp add: a2c_entropy_ex_def A2C_init_def)
  obtain dst v where f: "forward (policy a2c_entropy_ex) (concat (observations a2c_entropy_ex)) = (dst, v)"
    by (cases "forward (policy a2c_entropy_ex) (concat (observations a2c_entropy_ex))") auto
  have v: "snd (forward (policy a2c_entropy_ex) (concat (observations a2c_entropy_ex))) =
     [Dual 0 1, Dual 0 1, Dual 6 1, Dual 0 1]"
    by code_simp
  have l: "map_sum id snd (losses a2c_entropy_ex) =
     Inr (Dual (3 / 2) (- 3), Dual (9 / 2) (- 3), Dual 2 0, Dual 4 (- 6))"
    by code_simp
  from a2c_loss[OF wf n net f refl refl refl] obtain s1 actor critic ent loss
    where "losses a2c_entropy_ex = Inr (s1, actor, critic, ent, loss)"
      "val loss = val actor + critic_loss_weight a2c_entropy_ex * val critic
         - entropy_loss_weight a2c_entropy_ex * val ent"
    by blast
  with l have "map_sum id snd (losses a2c_entropy_ex) = Inr (actor, critic, ent, loss)" by simp
  with wf n net v l show ?thesis by simp
qed

text \<open>
  Claim C6 does not hold of the code. \<^verbatim>\<open>dist.entropy()[:-1]\<close> is sliced on the flat batch of
  \<open>(rollout + 1) * num_envs\<close> samples, before any \<^verbatim>\<open>view\<close>, so it drops the last sample only.
  With one time slot and the bootstrap slot over two environments and entropies 0, 0 in
  the first slot and 6, 0 in the bootstrap slot, \<^verbatim>\<open>update\<close> takes the mean of 0, 0, 6, which
  is 2; the mean over the first \<open>rollout * num_envs\<close> samples is 0.
\<close>

theorem entropy_counts_bootstrap_slot:
  "rollout a2c_entropy_ex = 1 \<and> num_envs a2c_entropy_ex = 2 \<and>
   entropy (fst (forward (policy a2c_entropy_ex) (concat (observations a2c_entropy_ex)))) =
     [Dual 0 0, Dual 0 0, Dual 6 0, Dual 0 0] \<and>
   map_sum id (\<lambda>(s1, actor_loss, critic_loss, dist_entropy, loss). dist_entropy)
     (losses a2c_entropy_ex) = Inr (Dual 2 0) \<and>
   tensor_mean (take (rollout a2c_entropy_ex * num_envs a2c_entropy_ex)
     (entropy (fst (forward (policy a2c_entropy_ex) (concat (observations a2c_entropy_ex)))))) =
     Dual 0 0"
  by code_simp

subsection \<open>The order of bookkeeping and delegation\<close>

text \<open>
  Claim C9, as amended. The replay buffer layer does its own bookkeeping (\<^verbatim>\<open>memorize\<close>) and
  then calls the parent's \<^verbatim>\<open>see\<close>. The target network layer and the A2C layer call the
  parent's \<^verbatim>\<open>see\<close> first and do their own bookkeeping on the state it leaves.
\<close>

theorem see_order:
  "ReplayBufferAgent_see super_see s x = own_then_delegate ReplayBufferAgent_memorize super_see s x \<and>
   TargetQAgent_see super_see' s' x' = delegate_then_own super_see' sync_if_due s' x' \<and>
   A2C_see super_see'' s'' x'' = delegate_then_own super_see'' rollout_bookkeeping s'' x''"
  by (simp add: ReplayBufferAgent_see_def TargetQAgent_see_def A2C_see_def own_then_delegate_def
      delegate_then_own_def)

lemma tq_orders:
  "TargetQAgent_see train_see tq1 3 =
     Inr (tq1\<lparr>frames_done := 10, q_net := 3, target_net := 3, syncs := 1\<rparr>)"
  "own_then_delegate sync_if_due train_see tq1 3 = Inr (tq1\<lparr>frames_done := 10, q_net := 3\<rparr>)"
  by (simp_all add: tq1_def TargetQAgent_see_def own_then_delegate_def train_see_def Agent_see_def
      sync_if_due_def py_mod_def unfreeze_def and_then_def)

lemma a2c_orders:
  "map_sum id (\<lambda>s. logger s ''magnitude'')
     (A2C_see Agent_see a2c_fresh ([1, 2], [0, 1], [1, 1], [3, 4], [False, False])) = Inr []"
  "map_sum id (\<lambda>s. logger s ''magnitude'')
     (own_then_delegate rollout_bookkeeping Agent_see a2c_fresh
        ([1, 2], [0, 1], [1, 1], [3, 4], [False, False])) = Inr [0]"
  by (simp_all add: a2c_fresh_def A2C_init_def base2_def A2C_see_def own_then_delegate_def Agent_see_def
      rollout_bookkeeping.simps copy_row_def py_mod_def and_then_def Let_def log_append_def net_ex_def)

text \<open>
  Claim C9 as stated fails for the target network layer and for the A2C layer: bookkeeping
  first and delegation after it gives another result. The target layer then tests the
  frame counter before the parent has advanced it and misses the sync at frame 10; the A2C
  layer then logs a noise magnitude at frame 0.
\<close>

theorem see_order_counterexample:
  "TargetQAgent_see train_see tq1 3 \<noteq> own_then_delegate sync_if_due train_see tq1 3 \<and>
   A2C_see Agent_see a2c_fresh ([1, 2], [0, 1], [1, 1], [3, 4], [False, False]) \<noteq>
     own_then_delegate rollout_bookkeeping Agent_see a2c_fresh
       ([1, 2], [0, 1], [1, 1], [3, 4], [False, False])"
proof -
  have "TargetQAgent_see train_see tq1 3 \<noteq> own_then_delegate sync_if_due train_see tq1 3"
    unfolding tq_orders by (simp add: tq1_def)
  moreover have "A2C_see Agent_see a2c_fresh ([1, 2], [0, 1], [1, 1], [3, 4], [False, False]) \<noteq>
     own_then_delegate rollout_bookkeeping Agent_see a2c_fresh
       ([1, 2], [0, 1], [1, 1], [3, 4], [False, False])"
    using a2c_orders by (metis list.distinct(1) sum.inject(2))
  ultimately show ?thesis by blast
qed

theorem see_order_witness:
  "ReplayBufferAgent_see Agent_see rb3 (13, 1, 4, 14, False, True) =
     own_then_delegate ReplayBufferAgent_memorize Agent_see rb3 (13, 1, 4, 14, False, True) \<and>
   TargetQAgent_see train_see tq1 3 = delegate_then_own train_see sync_if_due tq1 3 \<and>
   A2C_see Agent_see a2c_fresh ([1, 2], [0, 1], [1, 1], [3, 4], [False, False]) =
     delegate_then_own Agent_see rollout_bookkeeping a2c_fresh
       ([1, 2], [0, 1], [1, 1], [3, 4], [False, False])"
  by (rule see_order)

end
